theory Spec2Isabelle
  imports Main
begin

section \<open>Strings, paths and time formatting\<close>

text \<open>
  The program under study is \<^verbatim>\<open>main.go\<close>: a media organiser that walks a source
  directory, fingerprints every image and video file, drops duplicates and moves the
  remaining files to \<^verbatim>\<open><target>/<images|videos>/<YYYY>/<MM>/<timestamp>[-NN]<ext>\<close>.

  Strings are byte lists. Paths are compared as strings: the model has no working
  directory, no symbolic links and no hard links.
\<close>

type_synonym path = string

text \<open>
  \<^verbatim>\<open>strings.ToLower\<close>, on the UTF-8 bytes of a string. The letters \<^verbatim>\<open>A\<close> to \<^verbatim>\<open>Z\<close>
  become \<^verbatim>\<open>a\<close> to \<^verbatim>\<open>z\<close>. Two characters beyond ASCII have an ASCII letter as their
  lowercase: U+0130 (bytes C4 B0) becomes \<^verbatim>\<open>i\<close> and U+212A, the Kelvin sign (bytes
  E2 84 AA), becomes \<^verbatim>\<open>k\<close>. Every other character beyond ASCII is mapped by Go to a
  character beyond ASCII again (U+FFFD for a byte that is not UTF-8); its bytes are left
  as they are here. The result is only ever compared with the two extension tables, which
  are ASCII, and it is written into a file name only when it is in one of them.
\<close>

definition toLowerChar :: "char \<Rightarrow> char" where
  "toLowerChar c =
     (case map_of (zip ''ABCDEFGHIJKLMNOPQRSTUVWXYZ'' ''abcdefghijklmnopqrstuvwxyz'') c of
        None \<Rightarrow> c
      | Some l \<Rightarrow> l)"

function toLower :: "string \<Rightarrow> string" where
  "toLower [] = []"
| "toLower (c # cs) =
     (if c = CHR 0xC4 \<and> take 1 cs = [CHR 0xB0] then CHR ''i'' # toLower (drop 1 cs)
      else if c = CHR 0xE2 \<and> take 2 cs = [CHR 0x84, CHR 0xAA] then CHR ''k'' # toLower (drop 2 cs)
      else toLowerChar c # toLower cs)"
  by pat_completeness auto
termination
  by (relation "measure length") auto

text \<open>
  \<^verbatim>\<open>filepath.Ext\<close>: scan from the last byte towards the front, stop at a separator,
  return the suffix that starts at the first dot met.
\<close>

fun extScan :: "string \<Rightarrow> string \<Rightarrow> string" where
  "extScan [] acc = []"
| "extScan (c # cs) acc =
     (if c = CHR ''/'' then []
      else if c = CHR ''.'' then c # acc
      else extScan cs (c # acc))"

definition Ext :: "path \<Rightarrow> string" where
  "Ext p = extScan (rev p) []"

text \<open>Splitting at a separator byte, and \<^verbatim>\<open>strings.Join\<close>.\<close>

fun split :: "char \<Rightarrow> string \<Rightarrow> string list" where
  "split s [] = [[]]"
| "split s (c # cs) =
     (if c = s then [] # split s cs
      else (case split s cs of [] \<Rightarrow> [[c]] | g # gs \<Rightarrow> (c # g) # gs))"

fun sepJoin :: "string \<Rightarrow> string list \<Rightarrow> string" where
  "sepJoin s [] = []"
| "sepJoin s [x] = x"
| "sepJoin s (x # y # ys) = x @ s @ sepJoin s (y # ys)"

text \<open>
  \<^verbatim>\<open>filepath.Clean\<close> (Unix): empty and \<^verbatim>\<open>.\<close> elements vanish, an inner \<^verbatim>\<open>..\<close>
  removes the element before it, a \<^verbatim>\<open>..\<close> at the start of a rooted path vanishes, and
  the empty result is \<^verbatim>\<open>.\<close>. The stack of kept elements is held in reverse.
\<close>

definition cleanStep :: "bool \<Rightarrow> string list \<Rightarrow> string \<Rightarrow> string list" where
  "cleanStep rooted st c =
     (if c = [] \<or> c = ''.'' then st
      else if c = ''..'' then
        (case st of
           [] \<Rightarrow> (if rooted then [] else [''..''])
         | t # ts \<Rightarrow> (if t = ''..'' then ''..'' # t # ts else ts))
      else c # st)"

definition Clean :: "path \<Rightarrow> path" where
  "Clean p =
     (if p = [] then ''.''
      else
        (let rooted = (hd p = CHR ''/'');
             st = rev (foldl (cleanStep rooted) [] (split (CHR ''/'') p));
             r = (if rooted then ''/'' else []) @ sepJoin ''/'' st
         in if r = [] then ''.'' else r))"

text \<open>\<^verbatim>\<open>filepath.Join\<close>: leading empty elements are skipped, the rest joined and cleaned.\<close>

fun Join :: "string list \<Rightarrow> path" where
  "Join [] = []"
| "Join (e # es) = (if e = [] then Join es else Clean (sepJoin ''/'' (e # es)))"

text \<open>\<^verbatim>\<open>filepath.Dir\<close>: everything up to the last separator, cleaned.\<close>

definition Dir :: "path \<Rightarrow> path" where
  "Dir p = Clean (rev (dropWhile (\<lambda>c. c \<noteq> CHR ''/'') (rev p)))"

text \<open>Decimal rendering, and zero padding to a width, as \<^verbatim>\<open>%02d\<close> and Go's time formats do.\<close>

definition digitChar :: "nat \<Rightarrow> char" where
  \<comment> \<open>only ever applied to a digit value below ten\<close>
  "digitChar d = ''0123456789'' ! d"

function decimal :: "nat \<Rightarrow> string" where
  "decimal n = (if n < 10 then [digitChar n] else decimal (n div 10) @ [digitChar (n mod 10)])"
  by pat_completeness auto
termination
  by (relation "measure id") auto

declare decimal.simps [simp del]

definition zeroPad :: "nat \<Rightarrow> string \<Rightarrow> string" where
  "zeroPad w s = replicate (w - length s) (CHR ''0'') @ s"

text \<open>
  The calendar reading of a \<^verbatim>\<open>time.Time\<close>: the only thing the program asks of a time
  is \<^verbatim>\<open>Format\<close>. Go's \<^verbatim>\<open>appendInt\<close> writes a minus sign before a negative year.
\<close>

record time =
  year :: int
  month :: nat
  day :: nat
  hour :: nat
  minute :: nat
  second :: nat

definition fmtYear :: "time \<Rightarrow> string" where
  "fmtYear t = (if year t < 0 then ''-'' else []) @ zeroPad 4 (decimal (nat \<bar>year t\<bar>))"

definition fmt2 :: "nat \<Rightarrow> string" where
  "fmt2 n = zeroPad 2 (decimal n)"

text \<open>\<^verbatim>\<open>fileDate.Format("02-01-2006-15-04-05")\<close>\<close>

definition formatTimestamp :: "time \<Rightarrow> string" where
  "formatTimestamp t =
     fmt2 (day t) @ ''-'' @ fmt2 (month t) @ ''-'' @ fmtYear t @ ''-'' @
     fmt2 (hour t) @ ''-'' @ fmt2 (minute t) @ ''-'' @ fmt2 (second t)"

section \<open>Classification by extension\<close>

definition isImageFile :: "string \<Rightarrow> bool" where
  "isImageFile ext \<longleftrightarrow>
     ext \<in> set [''.jpg'', ''.jpeg'', ''.png'', ''.gif'', ''.bmp'', ''.tiff'', ''.webp'']"

definition isVideoFile :: "string \<Rightarrow> bool" where
  "isVideoFile ext \<longleftrightarrow>
     ext \<in> set [''.mp4'', ''.avi'', ''.mov'', ''.mkv'', ''.vob'', ''.flv'', ''.wmv'',
                ''.webm'', ''.mpg'']"

section \<open>The file system, its faults and the console\<close>

text \<open>
  Every call the program makes to the operating system is recorded in a trace. Whether a
  call fails for a reason outside the model (permissions, a full disk, a rename across
  devices) is decided by the environment, from the calls made so far and the call at hand.
\<close>

datatype op =
  OpOpen path
| OpRead path
| OpStat path
| OpRemove path
| OpRename path path
| OpMkdir path
| OpCreate path
| OpCopy path path

text \<open>
  Errors are values. \<open>Errorf msg cause\<close> is \<^verbatim>\<open>fmt.Errorf("<msg>: %v", cause)\<close>: a new
  error whose text ends with the text of its cause.
\<close>

datatype error =
  ErrNotExist path
| ErrNotDir path
| ErrIsDir path
| ErrFault op
| ErrExifDecode
| ErrExifNoDateTime
| ErrLstat path
| Errorf string error

record regfile =
  content :: string
  modTime :: time

text \<open>What \<^verbatim>\<open>exif.Decode\<close> followed by \<^verbatim>\<open>DateTime()\<close> finds in the bytes of a file.\<close>

datatype exif = ExifUndecodable | ExifNoDateTime | ExifDateTime time

text \<open>The lines the program prints, one constructor for each \<^verbatim>\<open>Printf\<close>.\<close>

datatype line =
  DuplicateFound path path
| ErrorDeleting path error
| DeletedDuplicate path
| ErrorExtractingDate path error
| MovedRenamed path path
| DryRunWouldMove path path

record env =
  sha256hex :: "string \<Rightarrow> string"
  exifOf :: "string \<Rightarrow> exif"
  fails :: "op list \<Rightarrow> op \<Rightarrow> bool"
  copyCut :: "op list \<Rightarrow> nat option"
  now :: "op list \<Rightarrow> time"

record world =
  files :: "path \<rightharpoonup> regfile"
  dirs :: "path set"
  trace :: "op list"
  stdout :: "line list"

definition logOp :: "op \<Rightarrow> world \<Rightarrow> world" where
  "logOp x w = w\<lparr>trace := trace w @ [x]\<rparr>"

definition println :: "line \<Rightarrow> world \<Rightarrow> world" where
  "println l w = w\<lparr>stdout := stdout w @ [l]\<rparr>"

definition os_Open :: "env \<Rightarrow> world \<Rightarrow> path \<Rightarrow> (error + regfile) \<times> world" where
  "os_Open env w p =
     ((case files w p of
         None \<Rightarrow> Inl (ErrNotExist p)
       | Some f \<Rightarrow> if fails env (trace w) (OpOpen p) then Inl (ErrFault (OpOpen p)) else Inr f),
      logOp (OpOpen p) w)"

text \<open>Reading an open file to its end (\<^verbatim>\<open>io.Copy\<close> into the hasher, or the EXIF decoder).\<close>

definition io_ReadAll :: "env \<Rightarrow> world \<Rightarrow> path \<Rightarrow> regfile \<Rightarrow> (error + string) \<times> world" where
  "io_ReadAll env w p f =
     ((if fails env (trace w) (OpRead p) then Inl (ErrFault (OpRead p)) else Inr (content f)),
      logOp (OpRead p) w)"

definition os_Stat :: "env \<Rightarrow> world \<Rightarrow> path \<Rightarrow> (error + regfile) \<times> world" where
  "os_Stat env w p =
     ((case files w p of
         None \<Rightarrow> Inl (ErrNotExist p)
       | Some f \<Rightarrow> if fails env (trace w) (OpStat p) then Inl (ErrFault (OpStat p)) else Inr f),
      logOp (OpStat p) w)"

definition os_Remove :: "env \<Rightarrow> world \<Rightarrow> path \<Rightarrow> error option \<times> world" where
  "os_Remove env w p =
     (case files w p of
        None \<Rightarrow> (Some (ErrNotExist p), logOp (OpRemove p) w)
      | Some f \<Rightarrow>
          if fails env (trace w) (OpRemove p) then (Some (ErrFault (OpRemove p)), logOp (OpRemove p) w)
          else (None, logOp (OpRemove p) (w\<lparr>files := (files w)(p := None)\<rparr>)))"

text \<open>
  \<^verbatim>\<open>os.Rename\<close>: the file keeps its content and times, and replaces a file at the
  destination. Renaming an existing file onto itself does nothing and succeeds (POSIX).
\<close>

definition os_Rename :: "env \<Rightarrow> world \<Rightarrow> path \<Rightarrow> path \<Rightarrow> error option \<times> world" where
  "os_Rename env w src dest =
     (case files w src of
        None \<Rightarrow> (Some (ErrNotExist src), logOp (OpRename src dest) w)
      | Some f \<Rightarrow>
          if src = dest then (None, logOp (OpRename src dest) w)
          else if dest \<in> dirs w then (Some (ErrIsDir dest), logOp (OpRename src dest) w)
          else if fails env (trace w) (OpRename src dest)
            then (Some (ErrFault (OpRename src dest)), logOp (OpRename src dest) w)
          else (None, logOp (OpRename src dest) (w\<lparr>files := (files w)(src := None, dest \<mapsto> f)\<rparr>)))"

text \<open>
  \<^verbatim>\<open>os.MkdirAll\<close>: nothing to do for an existing directory; otherwise the missing
  directories on the way are made from the outermost on, and the first failure stops it,
  leaving what was made so far.
\<close>

fun prefixDirs :: "path \<Rightarrow> path \<Rightarrow> path list" where
  "prefixDirs acc [] = [acc]"
| "prefixDirs acc (c # cs) =
     (if c = CHR ''/'' \<and> acc \<noteq> [] then acc # prefixDirs (acc @ [c]) cs
      else prefixDirs (acc @ [c]) cs)"

fun mkdirChain :: "env \<Rightarrow> world \<Rightarrow> path list \<Rightarrow> error option \<times> world" where
  "mkdirChain env w [] = (None, w)"
| "mkdirChain env w (q # qs) =
     (if q \<in> dirs w then mkdirChain env w qs
      else if files w q \<noteq> None then (Some (ErrNotDir q), logOp (OpMkdir q) w)
      else if fails env (trace w) (OpMkdir q) then (Some (ErrFault (OpMkdir q)), logOp (OpMkdir q) w)
      else mkdirChain env (logOp (OpMkdir q) (w\<lparr>dirs := insert q (dirs w)\<rparr>)) qs)"

definition os_MkdirAll :: "env \<Rightarrow> world \<Rightarrow> path \<Rightarrow> error option \<times> world" where
  "os_MkdirAll env w p =
     (let w1 = logOp (OpStat p) w in
      if p \<in> dirs w then (None, w1)
      else if files w p \<noteq> None then (Some (ErrNotDir p), w1)
      else mkdirChain env w1 (prefixDirs [] p))"

text \<open>\<^verbatim>\<open>os.Create\<close>: the file is created empty, or truncated if it exists.\<close>

definition os_Create :: "env \<Rightarrow> world \<Rightarrow> path \<Rightarrow> error option \<times> world" where
  "os_Create env w p =
     (if p \<in> dirs w then (Some (ErrIsDir p), logOp (OpCreate p) w)
      else if fails env (trace w) (OpCreate p) then (Some (ErrFault (OpCreate p)), logOp (OpCreate p) w)
      else (None, logOp (OpCreate p)
              (w\<lparr>files := (files w)(p \<mapsto> \<lparr>content = [], modTime = now env (trace w)\<rparr>)\<rparr>)))"

text \<open>
  \<^verbatim>\<open>io.Copy(destinationFile, sourceFile)\<close>: the bytes the source holds now are written to
  the destination; when the environment cuts the copy after \<open>n\<close> bytes, those \<open>n\<close> bytes
  stay in the destination and the copy reports an error.
\<close>

definition io_Copy :: "env \<Rightarrow> world \<Rightarrow> path \<Rightarrow> path \<Rightarrow> error option \<times> world" where
  "io_Copy env w src dest =
     (let bytes = (case files w src of None \<Rightarrow> [] | Some f \<Rightarrow> content f);
          t = now env (trace w)
      in case copyCut env (trace w) of
           Some n \<Rightarrow>
             (Some (ErrFault (OpCopy src dest)),
              logOp (OpCopy src dest)
                (w\<lparr>files := (files w)(dest \<mapsto> \<lparr>content = take n bytes, modTime = t\<rparr>)\<rparr>))
         | None \<Rightarrow>
             (None,
              logOp (OpCopy src dest)
                (w\<lparr>files := (files w)(dest \<mapsto> \<lparr>content = bytes, modTime = t\<rparr>)\<rparr>)))"

section \<open>The functions of main.go\<close>

definition calculateFileHash :: "env \<Rightarrow> world \<Rightarrow> path \<Rightarrow> (error + string) \<times> world" where
  "calculateFileHash env w filePath =
     (case os_Open env w filePath of
        (Inl err, w1) \<Rightarrow> (Inl err, w1)
      | (Inr f, w1) \<Rightarrow>
          (case io_ReadAll env w1 filePath f of
             (Inl err, w2) \<Rightarrow> (Inl err, w2)
           | (Inr bytes, w2) \<Rightarrow> (Inr (sha256hex env bytes), w2)))"

definition getFileCreationDate :: "env \<Rightarrow> world \<Rightarrow> path \<Rightarrow> (error + time) \<times> world" where
  "getFileCreationDate env w filePath =
     (case os_Stat env w filePath of
        (Inl err, w1) \<Rightarrow> (Inl err, w1)
      | (Inr info, w1) \<Rightarrow> (Inr (modTime info), w1))"

definition getVideoDate :: "env \<Rightarrow> world \<Rightarrow> path \<Rightarrow> (error + time) \<times> world" where
  "getVideoDate env w filePath = getFileCreationDate env w filePath"

definition getImageDate :: "env \<Rightarrow> world \<Rightarrow> path \<Rightarrow> (error + time) \<times> world" where
  "getImageDate env w filePath =
     (case os_Open env w filePath of
        (Inl err, w1) \<Rightarrow> (Inl err, w1)
      | (Inr f, w1) \<Rightarrow>
          (case io_ReadAll env w1 filePath f of
             (Inl err, w2) \<Rightarrow>
               (Inl (Errorf (''error extracting EXIF data from image '' @ filePath) err), w2)
           | (Inr bytes, w2) \<Rightarrow>
               (case exifOf env bytes of
                  ExifUndecodable \<Rightarrow>
                    (Inl (Errorf (''error extracting EXIF data from image '' @ filePath)
                            ErrExifDecode), w2)
                | ExifNoDateTime \<Rightarrow>
                    (Inl (Errorf (''error extracting date from EXIF data for image '' @ filePath)
                            ErrExifNoDateTime), w2)
                | ExifDateTime date \<Rightarrow> (Inr date, w2))))"

definition getFileDate :: "env \<Rightarrow> world \<Rightarrow> path \<Rightarrow> (error + time) \<times> world" where
  "getFileDate env w filePath =
     (let ext = toLower (Ext filePath) in
      if isImageFile ext then
        (case getImageDate env w filePath of
           (Inl err, w1) \<Rightarrow> (Inl (Errorf (''error extracting date from image '' @ filePath) err), w1)
         | (Inr fileDate, w1) \<Rightarrow> (Inr fileDate, w1))
      else if isVideoFile ext then
        (case getVideoDate env w filePath of
           (Inl err, w1) \<Rightarrow> (Inl (Errorf (''error extracting date from video '' @ filePath) err), w1)
         | (Inr fileDate, w1) \<Rightarrow> (Inr fileDate, w1))
      else
        (case getFileCreationDate env w filePath of
           (Inl err, w1) \<Rightarrow>
             (Inl (Errorf (''error getting file creation date for '' @ filePath) err), w1)
         | (Inr fileDate, w1) \<Rightarrow> (Inr fileDate, w1)))"

definition copyFile :: "env \<Rightarrow> world \<Rightarrow> path \<Rightarrow> path \<Rightarrow> error option \<times> world" where
  "copyFile env w src dest =
     (case os_Open env w src of
        (Inl err, w1) \<Rightarrow> (Some err, w1)
      | (Inr sourceFile, w1) \<Rightarrow>
          (case os_Create env w1 dest of
             (Some err, w2) \<Rightarrow> (Some err, w2)
           | (None, w2) \<Rightarrow> io_Copy env w2 src dest))"

definition moveFile :: "env \<Rightarrow> world \<Rightarrow> path \<Rightarrow> path \<Rightarrow> error option \<times> world" where
  "moveFile env w src dest =
     (case os_MkdirAll env w (Dir dest) of
        (Some err, w1) \<Rightarrow> (Some err, w1)
      | (None, w1) \<Rightarrow>
          (case os_Rename env w1 src dest of
             (None, w2) \<Rightarrow> (None, w2)
           | (Some _, w2) \<Rightarrow>
               (case copyFile env w2 src dest of
                  (Some err, w3) \<Rightarrow> (Some err, w3)
                | (None, w3) \<Rightarrow> os_Remove env w3 src)))"

section \<open>processFiles\<close>

text \<open>
  \<^verbatim>\<open>filepath.Walk\<close> calls the function literal of \<^verbatim>\<open>processFiles\<close> once for every
  entry it meets, with the entry's path and either its \<^verbatim>\<open>Lstat\<close> result or the error
  of reading it; the walk stops at the first call that returns an error. The sequence of
  these calls is a parameter of the model. The two maps are the local variables
  \<^verbatim>\<open>fileHashes\<close> and \<^verbatim>\<open>timestampCounter\<close> that the function literal closes over. The
  counter is a Go \<^verbatim>\<open>int\<close> that grows by one for each file: it is a natural number here.
\<close>

datatype entry = WalkError path error | DirEntry path | FileEntry path

record pstate =
  fileHashes :: "string \<rightharpoonup> path"
  timestampCounter :: "string \<rightharpoonup> nat"
  world :: world

text \<open>Lines 84 to 93: the file's hash has been seen.\<close>

definition dropDuplicate :: "env \<Rightarrow> bool \<Rightarrow> world \<Rightarrow> path \<Rightarrow> path \<Rightarrow> world" where
  "dropDuplicate env dryRun w p existingPath =
     (let w1 = println (DuplicateFound p existingPath) w in
      if \<not> dryRun then
        (case os_Remove env w1 p of
           (Some err, w2) \<Rightarrow> println (ErrorDeleting p err) w2
         | (None, w2) \<Rightarrow> println (DeletedDuplicate p) w2)
      else w1)"

text \<open>Lines 100 to 106: the date of the file, or the current time when there is none.\<close>

definition resolveDate :: "env \<Rightarrow> world \<Rightarrow> path \<Rightarrow> time \<times> world" where
  "resolveDate env w p =
     (case getFileDate env w p of
        (Inl err, w1) \<Rightarrow> (now env (trace w1), println (ErrorExtractingDate p err) w1)
      | (Inr fileDate, w1) \<Rightarrow> (fileDate, w1))"

text \<open>Lines 109 to 116.\<close>

definition subDirFor :: "path \<Rightarrow> string \<Rightarrow> time \<Rightarrow> path" where
  "subDirFor targetDir ext fileDate =
     (if isImageFile ext then Join [targetDir, ''images'', fmtYear fileDate, fmt2 (month fileDate)]
      else if isVideoFile ext then Join [targetDir, ''videos'', fmtYear fileDate, fmt2 (month fileDate)]
      else [])"

text \<open>Lines 127 to 143: the counter of the timestamp string, and the file name made of it.\<close>

definition allocName :: "(string \<rightharpoonup> nat) \<Rightarrow> string \<Rightarrow> string \<Rightarrow> string \<times> (string \<rightharpoonup> nat)" where
  "allocName counters timestampStr ext =
     (let counter = (case counters timestampStr of None \<Rightarrow> 0 | Some count \<Rightarrow> count + 1);
          counters' = counters(timestampStr \<mapsto> counter);
          newFileName =
            (if counter > 0 then timestampStr @ ''-'' @ zeroPad 2 (decimal counter) @ ext
             else timestampStr @ ext)
      in (newFileName, counters'))"

text \<open>Lines 149 to 157.\<close>

definition transfer :: "env \<Rightarrow> bool \<Rightarrow> world \<Rightarrow> path \<Rightarrow> path \<Rightarrow> error option \<times> world" where
  "transfer env dryRun w p newPath =
     (if \<not> dryRun then
        (case moveFile env w p newPath of
           (Some err, w1) \<Rightarrow> (Some err, w1)
         | (None, w1) \<Rightarrow> (None, println (MovedRenamed p newPath) w1))
      else (None, println (DryRunWouldMove p newPath) w))"

text \<open>Lines 71 to 160: the body of the function literal for an entry that is not a directory.\<close>

definition processFile :: "env \<Rightarrow> path \<Rightarrow> bool \<Rightarrow> pstate \<Rightarrow> path \<Rightarrow> error option \<times> pstate" where
  "processFile env targetDir dryRun st p =
     (let ext = toLower (Ext p) in
      if isImageFile ext \<or> isVideoFile ext then
        (case calculateFileHash env (world st) p of
           (Inl err, w1) \<Rightarrow> (Some err, st\<lparr>world := w1\<rparr>)
         | (Inr hash, w1) \<Rightarrow>
             (case fileHashes st hash of
                Some existingPath \<Rightarrow>
                  (None, st\<lparr>world := dropDuplicate env dryRun w1 p existingPath\<rparr>)
              | None \<Rightarrow>
                  (let hashes = (fileHashes st)(hash \<mapsto> p);
                       (fileDate, w2) = resolveDate env w1 p;
                       subDir = subDirFor targetDir ext fileDate
                   in case os_MkdirAll env w2 subDir of
                        (Some err, w3) \<Rightarrow> (Some err, st\<lparr>fileHashes := hashes, world := w3\<rparr>)
                      | (None, w3) \<Rightarrow>
                          (let timestampStr = formatTimestamp fileDate;
                               (newFileName, counters) =
                                  allocName (timestampCounter st) timestampStr ext;
                               newPath = Join [subDir, newFileName];
                               (r, w4) = transfer env dryRun w3 p newPath
                           in (r, \<lparr>fileHashes = hashes, timestampCounter = counters,
                                   world = w4\<rparr>)))))
      else (None, st))"

definition walkFn :: "env \<Rightarrow> path \<Rightarrow> bool \<Rightarrow> pstate \<Rightarrow> entry \<Rightarrow> error option \<times> pstate" where
  "walkFn env targetDir dryRun st e =
     (case e of
        WalkError p err \<Rightarrow> (Some err, st)
      | DirEntry p \<Rightarrow> (None, st)
      | FileEntry p \<Rightarrow> processFile env targetDir dryRun st p)"

fun walkAll :: "env \<Rightarrow> path \<Rightarrow> bool \<Rightarrow> pstate \<Rightarrow> entry list \<Rightarrow> error option \<times> pstate" where
  "walkAll env targetDir dryRun st [] = (None, st)"
| "walkAll env targetDir dryRun st (e # es) =
     (case walkFn env targetDir dryRun st e of
        (Some err, st') \<Rightarrow> (Some err, st')
      | (None, st') \<Rightarrow> walkAll env targetDir dryRun st' es)"

definition processFiles :: "env \<Rightarrow> path \<Rightarrow> bool \<Rightarrow> world \<Rightarrow> entry list \<Rightarrow> error option \<times> pstate" where
  "processFiles env targetDir dryRun w walk =
     walkAll env targetDir dryRun
       \<lparr>fileHashes = Map.empty, timestampCounter = Map.empty, world = w\<rparr> walk"

text \<open>
  The map \<^verbatim>\<open>timestampCounter\<close> over a run: every file that reaches line 125 hands its
  timestamp string and its extension to the block of lines 127 to 143, and the map it
  leaves is the one the next such file finds. \<open>allocSeq\<close> gives the file names made for
  a sequence of such requests, in order.
\<close>

fun allocSeq :: "(string \<rightharpoonup> nat) \<Rightarrow> (string \<times> string) list \<Rightarrow> string list" where
  "allocSeq counters [] = []"
| "allocSeq counters ((timestampStr, ext) # reqs) =
     (case allocName counters timestampStr ext of
        (newFileName, counters') \<Rightarrow> newFileName # allocSeq counters' reqs)"

text \<open>
  The file name with collision index \<open>k\<close>: the bare timestamp for 0, and the index
  after a dash, in two digits at least, from 1 on. \<open>countersAfter\<close> is the map expected
  after a list of requests: no entry for a timestamp string never asked for, and else the
  number of its requests less one.
\<close>

definition suffixed :: "string \<Rightarrow> nat \<Rightarrow> string \<Rightarrow> string" where
  "suffixed ts k ext = (if k = 0 then ts @ ext else ts @ ''-'' @ zeroPad 2 (decimal k) @ ext)"

definition countersAfter :: "(string \<times> string) list \<Rightarrow> (string \<rightharpoonup> nat)" where
  "countersAfter done =
     (\<lambda>ts. if ts \<in> fst ` set done then Some (length (filter (\<lambda>r. fst r = ts) done) - 1) else None)"

text \<open>
  The destinations printed by a run, in order: one for each line that reports a move,
  done or planned.
\<close>

fun dests :: "line list \<Rightarrow> path list" where
  "dests [] = []"
| "dests (MovedRenamed p q # ls) = q # dests ls"
| "dests (DryRunWouldMove p q # ls) = q # dests ls"
| "dests (l # ls) = dests ls"

text \<open>
  Tools for telling file names apart: the value of a digit and of a decimal string, and
  strings of digits. \<open>namesKept\<close> is what holds of the destinations of a run so far:
  no two are equal, and each ends in a file name made of a timestamp string and a
  collision index that the counter of that string has reached.
\<close>

definition digitVal :: "char \<Rightarrow> nat" where
  "digitVal c = length (takeWhile (\<lambda>x. x \<noteq> c) ''0123456789'')"

definition undec :: "string \<Rightarrow> nat" where
  "undec s = foldl (\<lambda>a c. 10 * a + digitVal c) 0 s"

definition isDigits :: "string \<Rightarrow> bool" where
  "isDigits s \<longleftrightarrow> list_all (\<lambda>c. c \<in> set ''0123456789'') s"

definition namesKept :: "pstate \<Rightarrow> path list \<Rightarrow> bool" where
  "namesKept st ds \<longleftrightarrow>
     distinct ds \<and>
     (\<forall>q \<in> set ds. \<exists>fd k ext m.
        last (split (CHR ''/'') q) = suffixed (formatTimestamp fd) k ext \<and>
        (isImageFile ext \<or> isVideoFile ext) \<and>
        timestampCounter st (formatTimestamp fd) = Some m \<and> k \<le> m)"



section \<open>Example runs\<close>

text \<open>
  A source directory \<^verbatim>\<open>s\<close> and a target directory \<^verbatim>\<open>t\<close>. Every file was last modified
  on 1 May 2023 at 10:00:00; the clock reads 31 December 2024, 23:59:59. The example
  fingerprint of a file is its content.
\<close>

definition t2023 :: time where
  "t2023 = \<lparr>year = 2023, month = 5, day = 1, hour = 10, minute = 0, second = 0\<rparr>"

definition t2024 :: time where
  "t2024 = \<lparr>year = 2024, month = 12, day = 31, hour = 23, minute = 59, second = 59\<rparr>"

definition exEnv :: "(string \<Rightarrow> exif) \<Rightarrow> (op list \<Rightarrow> op \<Rightarrow> bool) \<Rightarrow> (op list \<Rightarrow> nat option) \<Rightarrow> env" where
  "exEnv ex fl cutAt =
     \<lparr>sha256hex = (\<lambda>bytes. bytes), exifOf = ex, fails = fl, copyCut = cutAt, now = (\<lambda>h. t2024)\<rparr>"

definition noExif :: "string \<Rightarrow> exif" where
  "noExif bytes = ExifUndecodable"

definition exifMay2023 :: "string \<Rightarrow> exif" where
  "exifMay2023 bytes = ExifDateTime t2023"

definition noFault :: "op list \<Rightarrow> op \<Rightarrow> bool" where
  "noFault h x = False"

definition noCut :: "op list \<Rightarrow> nat option" where
  "noCut h = None"

definition exWorld :: "(path \<times> string) list \<Rightarrow> world" where
  "exWorld fs =
     \<lparr>files = map_of (map (\<lambda>(p, c). (p, \<lparr>content = c, modTime = t2023\<rparr>)) fs),
      dirs = {''s'', ''t''}, trace = [], stdout = []\<rparr>"

definition exState :: "world \<Rightarrow> pstate" where
  "exState w = \<lparr>fileHashes = Map.empty, timestampCounter = Map.empty, world = w\<rparr>"

text \<open>Faults: a rename that fails (as across devices), alone or with a failing create.\<close>

definition renameFault :: "op list \<Rightarrow> op \<Rightarrow> bool" where
  "renameFault h x = (case x of OpRename a b \<Rightarrow> True | _ \<Rightarrow> False)"

definition renameCreateFault :: "op list \<Rightarrow> op \<Rightarrow> bool" where
  "renameCreateFault h x = (case x of OpRename a b \<Rightarrow> True | OpCreate a \<Rightarrow> True | _ \<Rightarrow> False)"

text \<open>A copy that breaks after two bytes.\<close>

definition cutAfter2 :: "op list \<Rightarrow> nat option" where
  "cutAfter2 h = Some 2"

text \<open>A fault of every \<^verbatim>\<open>mkdir\<close>.\<close>

definition mkdirFault :: "op list \<Rightarrow> op \<Rightarrow> bool" where
  "mkdirFault h x = (case x of OpMkdir a \<Rightarrow> True | _ \<Rightarrow> False)"

section \<open>Evaluation\<close>

lemma decimal_numeral:
  "decimal (numeral k) =
     (if (numeral k :: nat) < 10 then [digitChar (numeral k)]
      else decimal (numeral k div 10) @ [digitChar (numeral k mod 10)])"
  by (rule decimal.simps)

lemma decimal_0: "decimal 0 = ''0''"
  by (simp add: decimal.simps digitChar_def)

lemma decimal_1: "decimal (Suc 0) = ''1''"
  by (simp add: decimal.simps digitChar_def)

lemma decimal_small: "n < 10 \<Longrightarrow> decimal n = [digitChar n]"
  by (simp add: decimal.simps)

lemmas string_defs =
  Ext_def toLowerChar_def isImageFile_def isVideoFile_def Clean_def cleanStep_def
  Dir_def formatTimestamp_def fmt2_def fmtYear_def zeroPad_def decimal_numeral decimal_0
  decimal_1 digitChar_def Let_def

lemmas os_defs =
  os_Open_def io_ReadAll_def os_Stat_def os_Remove_def os_Rename_def os_MkdirAll_def
  os_Create_def io_Copy_def logOp_def println_def

lemmas go_defs =
  calculateFileHash_def getFileCreationDate_def getVideoDate_def getImageDate_def
  getFileDate_def copyFile_def moveFile_def dropDuplicate_def resolveDate_def subDirFor_def
  allocName_def transfer_def processFile_def walkFn_def processFiles_def

lemmas ex_defs =
  t2023_def t2024_def exEnv_def noExif_def exifMay2023_def noFault_def noCut_def exWorld_def
  exState_def
  renameFault_def renameCreateFault_def cutAfter2_def
  mkdirFault_def

section \<open>Files that are neither images nor videos\<close>

text \<open>
  C6, as amended. A file whose lowercased extension is in neither table is not hashed and
  not renamed or moved: the function literal returns at once, with no call to the
  operating system, no line printed and both maps as they were.
\<close>

theorem C6_other_files_not_hashed_not_moved:
  assumes "\<not> isImageFile (toLower (Ext p))" and "\<not> isVideoFile (toLower (Ext p))"
  shows "walkFn env targetDir dryRun st (FileEntry p) = (None, st)"
  using assms by (simp add: walkFn_def processFile_def)

theorem C6_other_files_witness:
  "\<not> isImageFile (toLower (Ext ''s/notes.txt'')) \<and>
   \<not> isVideoFile (toLower (Ext ''s/notes.txt'')) \<and>
   walkFn (exEnv noExif noFault noCut) ''t'' False
     (exState (exWorld [(''s/notes.txt'', ''AA'')])) (FileEntry ''s/notes.txt'') =
   (None, exState (exWorld [(''s/notes.txt'', ''AA'')]))"
proof -
  have a: "\<not> isImageFile (toLower (Ext ''s/notes.txt''))"
    by (simp add: string_defs)
  have b: "\<not> isVideoFile (toLower (Ext ''s/notes.txt''))"
    by (simp add: string_defs)
  from C6_other_files_not_hashed_not_moved [OF a b] a b show ?thesis
    by blast
qed

text \<open>
  C6 as stated fails: the text file is never opened or read, its fingerprint is not
  recorded, and an image with the same bytes that comes after it is planned for a move,
  not reported as a duplicate.
\<close>

theorem C6_counterexample:
  "trace (world (snd (processFiles (exEnv exifMay2023 noFault noCut) ''t'' True
      (exWorld [(''s/notes.txt'', ''AA''), (''s/y.jpg'', ''AA'')])
      [FileEntry ''s/notes.txt''])))
     = [] \<and>
   fileHashes (snd (processFiles (exEnv exifMay2023 noFault noCut) ''t'' True
      (exWorld [(''s/notes.txt'', ''AA''), (''s/y.jpg'', ''AA'')])
      [FileEntry ''s/notes.txt'']))
     = Map.empty \<and>
   stdout (world (snd (processFiles (exEnv exifMay2023 noFault noCut) ''t'' True
      (exWorld [(''s/notes.txt'', ''AA''), (''s/y.jpg'', ''AA'')])
      [FileEntry ''s/notes.txt'', FileEntry ''s/y.jpg''])))
     = [DryRunWouldMove ''s/y.jpg'' ''t/images/2023/05/01-05-2023-10-00-00.jpg'']"
  by (simp add: go_defs os_defs string_defs ex_defs)

section \<open>Dry run\<close>

text \<open>
  C2. With the dry-run flag set, the directory of the planned destination is still made:
  \<^verbatim>\<open>os.MkdirAll(subDir, os.ModePerm)\<close> on line 119 stands before the test of the flag.
  Here the target holds no \<^verbatim>\<open>images\<close> directory before the run and three new
  directories after it.
\<close>

theorem C2_dry_run_makes_directories:
  "fst (processFiles (exEnv exifMay2023 noFault noCut) ''t'' True
      (exWorld [(''s/a.jpg'', ''AA'')]) [FileEntry ''s/a.jpg'']) = None \<and>
   dirs (exWorld [(''s/a.jpg'', ''AA'')]) = {''s'', ''t''} \<and>
   dirs (world (snd (processFiles (exEnv exifMay2023 noFault noCut) ''t'' True
      (exWorld [(''s/a.jpg'', ''AA'')]) [FileEntry ''s/a.jpg'']))) =
     {''t/images/2023/05'', ''t/images/2023'', ''t/images'', ''s'', ''t''} \<and>
   trace (world (snd (processFiles (exEnv exifMay2023 noFault noCut) ''t'' True
      (exWorld [(''s/a.jpg'', ''AA'')]) [FileEntry ''s/a.jpg'']))) =
     [OpOpen ''s/a.jpg'', OpRead ''s/a.jpg'', OpOpen ''s/a.jpg'', OpRead ''s/a.jpg'',
      OpStat ''t/images/2023/05'', OpMkdir ''t/images'', OpMkdir ''t/images/2023'',
      OpMkdir ''t/images/2023/05'']"
  by (simp add: go_defs os_defs string_defs ex_defs)

section \<open>The date of an image without EXIF data\<close>

text \<open>
  C5. An image whose EXIF data cannot be decoded: \<^verbatim>\<open>getFileDate\<close> returns the error, with
  its cause inside, and \<^verbatim>\<open>processFiles\<close> takes \<^verbatim>\<open>time.Now()\<close>. The file was modified
  in May 2023 and the clock reads December 2024: the destination is under
  \<^verbatim>\<open>2024/12\<close>, named after the clock.
\<close>

theorem C5_exif_failure_falls_back_to_now:
  "fst (getFileDate (exEnv noExif noFault noCut) (exWorld [(''s/a.jpg'', ''AA'')]) ''s/a.jpg'') =
     Inl (Errorf ''error extracting date from image s/a.jpg''
           (Errorf ''error extracting EXIF data from image s/a.jpg'' ErrExifDecode)) \<and>
   fst (resolveDate (exEnv noExif noFault noCut) (exWorld [(''s/a.jpg'', ''AA'')]) ''s/a.jpg'') =
     t2024 \<and>
   map_option modTime (files (exWorld [(''s/a.jpg'', ''AA'')]) ''s/a.jpg'') = Some t2023 \<and>
   stdout (world (snd (processFiles (exEnv noExif noFault noCut) ''t'' True
      (exWorld [(''s/a.jpg'', ''AA'')]) [FileEntry ''s/a.jpg'']))) =
     [ErrorExtractingDate ''s/a.jpg''
        (Errorf ''error extracting date from image s/a.jpg''
          (Errorf ''error extracting EXIF data from image s/a.jpg'' ErrExifDecode)),
      DryRunWouldMove ''s/a.jpg'' ''t/images/2024/12/31-12-2024-23-59-59.jpg'']"
  by (simp add: go_defs os_defs string_defs ex_defs)

section \<open>moveFile and copyFile\<close>

text \<open>What the calls leave untouched, and what a rename or a copy does.\<close>

lemma mkdirChain_frame:
  "mkdirChain env w qs = (r, w') \<Longrightarrow> files w' = files w \<and> stdout w' = stdout w"
  by (induction qs arbitrary: w) (auto simp: logOp_def split: if_splits)

lemma os_MkdirAll_frame:
  "os_MkdirAll env w p = (r, w') \<Longrightarrow> files w' = files w \<and> stdout w' = stdout w"
  by (auto simp: os_MkdirAll_def Let_def logOp_def split: if_splits dest: mkdirChain_frame)

lemma os_Rename_failed:
  assumes "os_Rename env w src dest = (Some e, w')"
  shows "w' = logOp (OpRename src dest) w \<and> (files w src = None \<or> src \<noteq> dest)"
  using assms by (auto simp: os_Rename_def split: option.splits if_splits)








lemma os_Open_frame:
  "os_Open env w p = (r, w') \<Longrightarrow> w' = logOp (OpOpen p) w"
  by (auto simp: os_Open_def)

text \<open>
  C9. The rename has failed, the source was opened, the destination created, and the
  copy breaks after \<open>n\<close> bytes: \<^verbatim>\<open>copyFile\<close> returns the error and so does
  \<^verbatim>\<open>moveFile\<close>; the copy was the last call (nothing removes the destination), the
  destination holds the first \<open>n\<close> bytes of the source, and the source is whole.
\<close>

theorem C9_failed_copy_leaves_partial_destination:
  assumes "os_MkdirAll env w (Dir dest) = (None, w1)"
    and "os_Rename env w1 src dest = (Some e, w2)"
    and "os_Open env w2 src = (Inr f, w3)"
    and "os_Create env w3 dest = (None, w4)"
    and "copyCut env (trace w4) = Some n"
  shows "moveFile env w src dest = copyFile env w2 src dest \<and>
         fst (copyFile env w2 src dest) = Some (ErrFault (OpCopy src dest)) \<and>
         map_option content (files (snd (copyFile env w2 src dest)) dest) = Some (take n (content f)) \<and>
         files (snd (copyFile env w2 src dest)) src = Some f \<and>
         files w src = Some f \<and>
         trace (snd (copyFile env w2 src dest)) = trace w4 @ [OpCopy src dest]"
proof -
  have fw1: "files w1 = files w"
    using os_MkdirAll_frame [OF assms(1)] by simp
  from os_Rename_failed [OF assms(2)]
  have w2: "w2 = logOp (OpRename src dest) w1" and apart: "files w1 src = None \<or> src \<noteq> dest"
    by simp_all
  have w3: "w3 = logOp (OpOpen src) w2" and f: "files w2 src = Some f"
    using assms(3) by (auto simp: os_Open_def split: option.splits if_splits)
  have fw: "files w src = Some f"
    using f w2 fw1 by (simp add: logOp_def)
  with apart fw1 have ne: "src \<noteq> dest"
    by auto
  have f4: "files w4 = (files w3)(dest \<mapsto> \<lparr>content = [], modTime = now env (trace w3)\<rparr>)"
    using assms(4) by (auto simp: os_Create_def logOp_def split: if_splits)
  have src4: "files w4 src = Some f"
    using f4 ne f w3 by (simp add: logOp_def)
  have cp: "copyFile env w2 src dest = io_Copy env w4 src dest"
    using assms(3,4) by (simp add: copyFile_def)
  have io: "io_Copy env w4 src dest =
      (Some (ErrFault (OpCopy src dest)),
       logOp (OpCopy src dest)
         (w4\<lparr>files := (files w4)(dest \<mapsto> \<lparr>content = take n (content f),
                                         modTime = now env (trace w4)\<rparr>)\<rparr>))"
    using assms(5) src4 by (simp add: io_Copy_def Let_def)
  have mv: "moveFile env w src dest = copyFile env w2 src dest"
    using assms(1,2) cp io by (simp add: moveFile_def)
  show ?thesis
    using mv cp io ne src4 fw by (simp add: logOp_def)
qed

theorem C9_witness:
  "fst (moveFile (exEnv noExif renameFault cutAfter2) (exWorld [(''s/a.jpg'', ''AAAA'')])
          ''s/a.jpg'' ''t/images/2023/05/01-05-2023-10-00-00.jpg'') =
     Some (ErrFault (OpCopy ''s/a.jpg'' ''t/images/2023/05/01-05-2023-10-00-00.jpg'')) \<and>
   map_option content
     (files (snd (moveFile (exEnv noExif renameFault cutAfter2) (exWorld [(''s/a.jpg'', ''AAAA'')])
          ''s/a.jpg'' ''t/images/2023/05/01-05-2023-10-00-00.jpg''))
        ''t/images/2023/05/01-05-2023-10-00-00.jpg'') = Some ''AA'' \<and>
   files (snd (moveFile (exEnv noExif renameFault cutAfter2) (exWorld [(''s/a.jpg'', ''AAAA'')])
          ''s/a.jpg'' ''t/images/2023/05/01-05-2023-10-00-00.jpg'')) ''s/a.jpg'' =
     Some \<lparr>content = ''AAAA'', modTime = t2023\<rparr>"
proof -
  let ?E = "exEnv noExif renameFault cutAfter2"
  let ?W = "exWorld [(''s/a.jpg'', ''AAAA'')]"
  let ?s = "''s/a.jpg''"
  let ?d = "''t/images/2023/05/01-05-2023-10-00-00.jpg''"
  let ?w1 = "snd (os_MkdirAll ?E ?W (Dir ?d))"
  let ?w2 = "logOp (OpRename ?s ?d) ?w1"
  let ?w3 = "logOp (OpOpen ?s) ?w2"
  let ?w4 = "snd (os_Create ?E ?w3 ?d)"
  have mk: "os_MkdirAll ?E ?W (Dir ?d) = (None, ?w1)"
    by (simp add: os_defs string_defs ex_defs)
  have rn: "os_Rename ?E ?w1 ?s ?d = (Some (ErrFault (OpRename ?s ?d)), ?w2)"
    by (simp add: os_defs string_defs ex_defs)
  have opn: "os_Open ?E ?w2 ?s = (Inr \<lparr>content = ''AAAA'', modTime = t2023\<rparr>, ?w3)"
    by (simp add: os_defs string_defs ex_defs)
  have cr: "os_Create ?E ?w3 ?d = (None, ?w4)"
    by (simp add: os_defs string_defs ex_defs)
  have ct: "copyCut ?E (trace ?w4) = Some 2"
    by (simp add: ex_defs)
  from C9_failed_copy_leaves_partial_destination [OF mk rn opn cr ct] show ?thesis
    by simp
qed

section \<open>The steps of processFiles\<close>

lemma walkAll_append:
  "walkAll env t d st0 (xs @ ys) =
     (case walkAll env t d st0 xs of
        (Some err, st) \<Rightarrow> (Some err, st)
      | (None, st) \<Rightarrow> walkAll env t d st ys)"
  by (induction xs arbitrary: st0) (auto split: prod.splits option.splits)

lemma processFile_other:
  assumes "\<not> (isImageFile (toLower (Ext p)) \<or> isVideoFile (toLower (Ext p)))"
  shows "processFile env t d st p = (None, st)"
  using assms by (simp add: processFile_def)

lemma processFile_hash_error:
  assumes "isImageFile (toLower (Ext p)) \<or> isVideoFile (toLower (Ext p))"
    and "calculateFileHash env (world st) p = (Inl err, w1)"
  shows "processFile env t d st p = (Some err, st\<lparr>world := w1\<rparr>)"
  using assms by (simp add: processFile_def)

lemma processFile_duplicate:
  assumes "isImageFile (toLower (Ext p)) \<or> isVideoFile (toLower (Ext p))"
    and "calculateFileHash env (world st) p = (Inr h, w1)"
    and "fileHashes st h = Some p0"
  shows "processFile env t d st p = (None, st\<lparr>world := dropDuplicate env d w1 p p0\<rparr>)"
  using assms by (simp add: processFile_def)

lemma processFile_mkdir_error:
  assumes "isImageFile (toLower (Ext p)) \<or> isVideoFile (toLower (Ext p))"
    and "calculateFileHash env (world st) p = (Inr h, w1)"
    and "fileHashes st h = None"
    and "resolveDate env w1 p = (fd, w2)"
    and "os_MkdirAll env w2 (subDirFor t (toLower (Ext p)) fd) = (Some err, w3)"
  shows "processFile env t d st p = (Some err, st\<lparr>fileHashes := (fileHashes st)(h \<mapsto> p), world := w3\<rparr>)"
  using assms by (simp add: processFile_def)

lemma processFile_named:
  assumes "isImageFile (toLower (Ext p)) \<or> isVideoFile (toLower (Ext p))"
    and "calculateFileHash env (world st) p = (Inr h, w1)"
    and "fileHashes st h = None"
    and "resolveDate env w1 p = (fd, w2)"
    and "os_MkdirAll env w2 (subDirFor t (toLower (Ext p)) fd) = (None, w3)"
    and "allocName (timestampCounter st) (formatTimestamp fd) (toLower (Ext p)) = (name, cs)"
    and "transfer env d w3 p (Join [subDirFor t (toLower (Ext p)) fd, name]) = (r, w4)"
  shows "processFile env t d st p =
           (r, \<lparr>fileHashes = (fileHashes st)(h \<mapsto> p), timestampCounter = cs, world = w4\<rparr>)"
  using assms by (simp add: processFile_def)

lemma processFile_cases [consumes 1, case_names other hashError duplicate mkdirError named]:
  assumes "processFile env t d st p = (r, st')"
  obtains
    (other) "\<not> (isImageFile (toLower (Ext p)) \<or> isVideoFile (toLower (Ext p)))"
      and "r = None" and "st' = st"
  | (hashError) err w1 where "isImageFile (toLower (Ext p)) \<or> isVideoFile (toLower (Ext p))"
      and "calculateFileHash env (world st) p = (Inl err, w1)"
      and "r = Some err" and "st' = st\<lparr>world := w1\<rparr>"
  | (duplicate) h w1 p0 where "isImageFile (toLower (Ext p)) \<or> isVideoFile (toLower (Ext p))"
      and "calculateFileHash env (world st) p = (Inr h, w1)"
      and "fileHashes st h = Some p0"
      and "r = None" and "st' = st\<lparr>world := dropDuplicate env d w1 p p0\<rparr>"
  | (mkdirError) h w1 fd w2 err w3 where
      "isImageFile (toLower (Ext p)) \<or> isVideoFile (toLower (Ext p))"
      and "calculateFileHash env (world st) p = (Inr h, w1)"
      and "fileHashes st h = None"
      and "resolveDate env w1 p = (fd, w2)"
      and "os_MkdirAll env w2 (subDirFor t (toLower (Ext p)) fd) = (Some err, w3)"
      and "r = Some err" and "st' = st\<lparr>fileHashes := (fileHashes st)(h \<mapsto> p), world := w3\<rparr>"
  | (named) h w1 fd w2 w3 name cs w4 where
      "isImageFile (toLower (Ext p)) \<or> isVideoFile (toLower (Ext p))"
      and "calculateFileHash env (world st) p = (Inr h, w1)"
      and "fileHashes st h = None"
      and "resolveDate env w1 p = (fd, w2)"
      and "os_MkdirAll env w2 (subDirFor t (toLower (Ext p)) fd) = (None, w3)"
      and "allocName (timestampCounter st) (formatTimestamp fd) (toLower (Ext p)) = (name, cs)"
      and "transfer env d w3 p (Join [subDirFor t (toLower (Ext p)) fd, name]) = (r, w4)"
      and "st' = \<lparr>fileHashes = (fileHashes st)(h \<mapsto> p), timestampCounter = cs, world = w4\<rparr>"
proof (cases "isImageFile (toLower (Ext p)) \<or> isVideoFile (toLower (Ext p))")
  case False
  with assms other show ?thesis
    by (simp add: processFile_def)
next
  case media: True
  obtain hr w1 where hash: "calculateFileHash env (world st) p = (hr, w1)"
    by (cases "calculateFileHash env (world st) p")
  show ?thesis
  proof (cases hr)
    case (Inl err)
    with hash media assms hashError show ?thesis
      by (simp add: processFile_def)
  next
    case (Inr h)
    note h = hash [unfolded Inr]
    show ?thesis
    proof (cases "fileHashes st h")
      case (Some p0)
      with h media assms duplicate show ?thesis
        by (simp add: processFile_def)
    next
      case None
      obtain fd w2 where rd: "resolveDate env w1 p = (fd, w2)"
        by (cases "resolveDate env w1 p")
      obtain mr w3 where mk: "os_MkdirAll env w2 (subDirFor t (toLower (Ext p)) fd) = (mr, w3)"
        by (cases "os_MkdirAll env w2 (subDirFor t (toLower (Ext p)) fd)")
      show ?thesis
      proof (cases mr)
        case (Some err)
        from processFile_mkdir_error [OF media h None rd mk [unfolded Some], of d] assms
        have "r = Some err" and "st' = st\<lparr>fileHashes := (fileHashes st)(h \<mapsto> p), world := w3\<rparr>"
          by simp_all
        with mkdirError [OF media h None rd mk [unfolded Some]] show ?thesis
          by simp
      next
        case mkNone: None
        obtain name cs where al:
          "allocName (timestampCounter st) (formatTimestamp fd) (toLower (Ext p)) = (name, cs)"
          by (cases "allocName (timestampCounter st) (formatTimestamp fd) (toLower (Ext p))")
        obtain r' w4 where tr:
          "transfer env d w3 p (Join [subDirFor t (toLower (Ext p)) fd, name]) = (r', w4)"
          by (cases "transfer env d w3 p (Join [subDirFor t (toLower (Ext p)) fd, name])")
        from processFile_named [OF media h None rd mk [unfolded mkNone] al tr] assms
        have "r = r'" and "st' = \<lparr>fileHashes = (fileHashes st)(h \<mapsto> p), timestampCounter = cs, world = w4\<rparr>"
          by simp_all
        with named [OF media h None rd mk [unfolded mkNone] al] tr show ?thesis
          by simp
      qed
    qed
  qed
qed

section \<open>Frames\<close>

lemma calculateFileHash_frame:
  assumes "calculateFileHash env w p = (r, w')"
  shows "files w' = files w \<and> dirs w' = dirs w \<and> stdout w' = stdout w"
  using assms
  by (auto simp: calculateFileHash_def os_Open_def io_ReadAll_def logOp_def
           split: option.splits if_splits)

lemma calculateFileHash_trace:
  assumes "calculateFileHash env w p = (Inr h, w')"
  shows "trace w' = trace w @ [OpOpen p, OpRead p]"
  using assms
  by (auto simp: calculateFileHash_def os_Open_def io_ReadAll_def logOp_def
           split: option.splits if_splits)

lemma getFileDate_frame:
  assumes "getFileDate env w p = (r, w')"
  shows "files w' = files w \<and> dirs w' = dirs w \<and> stdout w' = stdout w"
  using assms
  by (auto simp: getFileDate_def getImageDate_def getVideoDate_def getFileCreationDate_def
                 os_Open_def os_Stat_def io_ReadAll_def logOp_def Let_def
           split: option.splits if_splits exif.splits)

lemma resolveDate_frame:
  assumes "resolveDate env w p = (fd, w')"
  shows "files w' = files w \<and> dirs w' = dirs w \<and>
         (stdout w' = stdout w \<or> (\<exists>e. stdout w' = stdout w @ [ErrorExtractingDate p e]))"
proof -
  obtain r w1 where g: "getFileDate env w p = (r, w1)"
    by (cases "getFileDate env w p")
  show ?thesis
  proof (cases r)
    case (Inl err)
    with g assms have "w' = println (ErrorExtractingDate p err) w1"
      by (simp add: resolveDate_def)
    with getFileDate_frame [OF g] show ?thesis
      by (simp add: println_def)
  next
    case (Inr t)
    with g assms have "w' = w1"
      by (simp add: resolveDate_def)
    with getFileDate_frame [OF g] show ?thesis
      by simp
  qed
qed

lemma os_Remove_frame:
  assumes "os_Remove env w p = (r, w')"
  shows "dirs w' = dirs w \<and> stdout w' = stdout w \<and> trace w' = trace w @ [OpRemove p] \<and>
         (case r of None \<Rightarrow> files w' = (files w)(p := None) | Some e \<Rightarrow> files w' = files w)"
  using assms by (auto simp: os_Remove_def logOp_def split: option.splits if_splits)

lemma copyFile_stdout:
  assumes "copyFile env w src dest = (r, w')"
  shows "stdout w' = stdout w"
  using assms
  by (auto simp: copyFile_def os_Open_def os_Create_def io_Copy_def logOp_def Let_def
           split: option.splits if_splits)

lemma moveFile_stdout:
  assumes "moveFile env w src dest = (r, w')"
  shows "stdout w' = stdout w"
proof -
  obtain r1 w1 where mk: "os_MkdirAll env w (Dir dest) = (r1, w1)"
    by (cases "os_MkdirAll env w (Dir dest)")
  obtain r2 w2 where rn: "os_Rename env w1 src dest = (r2, w2)"
    by (cases "os_Rename env w1 src dest")
  obtain r3 w3 where cp: "copyFile env w2 src dest = (r3, w3)"
    by (cases "copyFile env w2 src dest")
  obtain r4 w4 where rm: "os_Remove env w3 src = (r4, w4)"
    by (cases "os_Remove env w3 src")
  have "stdout w1 = stdout w"
    using os_MkdirAll_frame [OF mk] by simp
  moreover have "stdout w2 = stdout w1"
    using rn by (auto simp: os_Rename_def logOp_def split: option.splits if_splits)
  moreover have "stdout w3 = stdout w2"
    using copyFile_stdout [OF cp] .
  moreover have "stdout w4 = stdout w3"
    using os_Remove_frame [OF rm] by simp
  ultimately show ?thesis
    using assms mk rn cp rm by (auto simp: moveFile_def split: option.splits)
qed

lemma transfer_stdout:
  assumes "transfer env d w p q = (r, w')"
  shows "case r of
           None \<Rightarrow> stdout w' = stdout w @ [if d then DryRunWouldMove p q else MovedRenamed p q]
         | Some e \<Rightarrow> stdout w' = stdout w"
proof (cases d)
  case True
  with assms show ?thesis
    by (auto simp: transfer_def println_def)
next
  case False
  obtain r1 w1 where mv: "moveFile env w p q = (r1, w1)"
    by (cases "moveFile env w p q")
  from moveFile_stdout [OF mv] mv assms False show ?thesis
    by (auto simp: transfer_def println_def split: option.splits)
qed

lemma dropDuplicate_effect:
  "dirs (dropDuplicate env d w p p0) = dirs w \<and>
   (if d then stdout (dropDuplicate env d w p p0) = stdout w @ [DuplicateFound p p0] \<and>
             files (dropDuplicate env d w p p0) = files w \<and>
             trace (dropDuplicate env d w p p0) = trace w
    else trace (dropDuplicate env d w p p0) = trace w @ [OpRemove p] \<and>
         (stdout (dropDuplicate env d w p p0) = stdout w @ [DuplicateFound p p0, DeletedDuplicate p] \<and>
          files (dropDuplicate env d w p p0) = (files w)(p := None) \<or>
          (\<exists>e. stdout (dropDuplicate env d w p p0) = stdout w @ [DuplicateFound p p0, ErrorDeleting p e] \<and>
               files (dropDuplicate env d w p p0) = files w)))"
proof (cases d)
  case True
  then show ?thesis
    by (simp add: dropDuplicate_def println_def)
next
  case False
  obtain r w' where rm: "os_Remove env (println (DuplicateFound p p0) w) p = (r, w')"
    by (cases "os_Remove env (println (DuplicateFound p p0) w) p")
  from os_Remove_frame [OF rm] rm False show ?thesis
    by (cases r) (auto simp: dropDuplicate_def println_def Let_def)
qed

lemma processFile_stdout:
  assumes "processFile env t d st p = (r, st')"
  shows "\<exists>ls. stdout (world st') = stdout (world st) @ ls"
  using assms
proof (cases rule: processFile_cases)
  case other
  then show ?thesis by simp
next
  case (hashError err w1)
  with calculateFileHash_frame [OF hashError(2)] show ?thesis by simp
next
  case (duplicate h w1 p0)
  with calculateFileHash_frame [OF duplicate(2)] dropDuplicate_effect [of env d w1 p p0]
  show ?thesis by (cases d) auto
next
  case (mkdirError h w1 fd w2 err w3)
  with calculateFileHash_frame [OF mkdirError(2)] resolveDate_frame [OF mkdirError(4)]
    os_MkdirAll_frame [OF mkdirError(5)]
  show ?thesis by auto
next
  case (named h w1 fd w2 w3 name cs w4)
  with calculateFileHash_frame [OF named(2)] resolveDate_frame [OF named(4)]
    os_MkdirAll_frame [OF named(5)] transfer_stdout [OF named(7)]
  show ?thesis by (cases r) auto
qed

lemma walkFn_stdout:
  assumes "walkFn env t d st e = (r, st')"
  shows "\<exists>ls. stdout (world st') = stdout (world st) @ ls"
  using assms by (cases e) (auto simp: walkFn_def dest: processFile_stdout)

lemma walkAll_stdout:
  "walkAll env t d st es = (r, st') \<Longrightarrow> \<exists>ls. stdout (world st') = stdout (world st) @ ls"
proof (induction es arbitrary: st)
  case Nil
  then show ?case by simp
next
  case (Cons e es)
  obtain r1 st1 where step: "walkFn env t d st e = (r1, st1)"
    by (cases "walkFn env t d st e")
  from walkFn_stdout [OF step] obtain ls1 where l1: "stdout (world st1) = stdout (world st) @ ls1"
    by blast
  show ?case
  proof (cases r1)
    case None
    with Cons.prems step have "walkAll env t d st1 es = (r, st')"
      by simp
    from Cons.IH [OF this] l1 show ?thesis
      by auto
  next
    case (Some err)
    with Cons.prems step l1 show ?thesis
      by auto
  qed
qed

section \<open>Fatal errors\<close>

text \<open>
  C8. The walk so far went without error and comes to an image or video file. If reading
  the file for its hash fails, or if the hash is new and making the destination directory
  fails, then \<^verbatim>\<open>processFiles\<close> returns that very error, and its result (the error, both
  maps, the file system, the calls made and the lines printed) is the one of the walk cut
  after this file: no entry after it is looked at.
\<close>

theorem C8_fatal_errors_stop_the_walk:
  assumes "processFiles env targetDir dryRun w0 pre = (None, st)"
    and "isImageFile (toLower (Ext p)) \<or> isVideoFile (toLower (Ext p))"
    and "(\<exists>w1. calculateFileHash env (world st) p = (Inl err, w1)) \<or>
         (\<exists>h w1 fd w2 w3.
            calculateFileHash env (world st) p = (Inr h, w1) \<and> fileHashes st h = None \<and>
            resolveDate env w1 p = (fd, w2) \<and>
            os_MkdirAll env w2 (subDirFor targetDir (toLower (Ext p)) fd) = (Some err, w3))"
  shows "fst (processFiles env targetDir dryRun w0 (pre @ FileEntry p # post)) = Some err \<and>
         processFiles env targetDir dryRun w0 (pre @ FileEntry p # post) =
           processFiles env targetDir dryRun w0 (pre @ [FileEntry p])"
proof -
  from assms(3) have "\<exists>st'. processFile env targetDir dryRun st p = (Some err, st')"
  proof
    assume "\<exists>w1. calculateFileHash env (world st) p = (Inl err, w1)"
    then show ?thesis
      using processFile_hash_error [OF assms(2)] by blast
  next
    assume "\<exists>h w1 fd w2 w3.
            calculateFileHash env (world st) p = (Inr h, w1) \<and> fileHashes st h = None \<and>
            resolveDate env w1 p = (fd, w2) \<and>
            os_MkdirAll env w2 (subDirFor targetDir (toLower (Ext p)) fd) = (Some err, w3)"
    then show ?thesis
      using processFile_mkdir_error [OF assms(2)] by blast
  qed
  then obtain st' where "walkFn env targetDir dryRun st (FileEntry p) = (Some err, st')"
    by (auto simp: walkFn_def)
  with assms(1) show ?thesis
    by (simp add: processFiles_def walkAll_append)
qed

theorem C8_witness:
  "fst (processFiles (exEnv exifMay2023 mkdirFault noCut) ''t'' False
          (exWorld [(''s/a.jpg'', ''AA''), (''s/b.mp4'', ''BB'')])
          ([DirEntry ''s''] @ FileEntry ''s/a.jpg'' # [FileEntry ''s/b.mp4''])) =
     Some (ErrFault (OpMkdir ''t/images'')) \<and>
   trace (world (snd (processFiles (exEnv exifMay2023 mkdirFault noCut) ''t'' False
          (exWorld [(''s/a.jpg'', ''AA''), (''s/b.mp4'', ''BB'')])
          ([DirEntry ''s''] @ FileEntry ''s/a.jpg'' # [FileEntry ''s/b.mp4''])))) =
     [OpOpen ''s/a.jpg'', OpRead ''s/a.jpg'', OpOpen ''s/a.jpg'', OpRead ''s/a.jpg'',
      OpStat ''t/images/2023/05'', OpMkdir ''t/images'']"
proof -
  let ?E = "exEnv exifMay2023 mkdirFault noCut"
  let ?W = "exWorld [(''s/a.jpg'', ''AA''), (''s/b.mp4'', ''BB'')]"
  let ?p = "''s/a.jpg''"
  let ?w1 = "snd (calculateFileHash ?E ?W ?p)"
  let ?w2 = "snd (resolveDate ?E ?w1 ?p)"
  let ?w3 = "snd (os_MkdirAll ?E ?w2 (subDirFor ''t'' (toLower (Ext ?p)) t2023))"
  have pre: "processFiles ?E ''t'' False ?W [DirEntry ''s''] = (None, exState ?W)"
    by (simp add: processFiles_def walkFn_def exState_def)
  have media: "isImageFile (toLower (Ext ?p)) \<or> isVideoFile (toLower (Ext ?p))"
    by (simp add: string_defs)
  have hash: "calculateFileHash ?E (world (exState ?W)) ?p = (Inr ''AA'', ?w1)"
    by (simp add: go_defs os_defs ex_defs)
  have fresh: "fileHashes (exState ?W) ''AA'' = None"
    by (simp add: exState_def)
  have date: "resolveDate ?E ?w1 ?p = (t2023, ?w2)"
    by (simp add: go_defs os_defs string_defs ex_defs)
  have mk: "os_MkdirAll ?E ?w2 (subDirFor ''t'' (toLower (Ext ?p)) t2023) =
              (Some (ErrFault (OpMkdir ''t/images'')), ?w3)"
    by (simp add: go_defs os_defs string_defs ex_defs)
  have "(\<exists>w1. calculateFileHash ?E (world (exState ?W)) ?p = (Inl (ErrFault (OpMkdir ''t/images'')), w1)) \<or>
        (\<exists>h w1 fd w2 w3.
            calculateFileHash ?E (world (exState ?W)) ?p = (Inr h, w1) \<and>
            fileHashes (exState ?W) h = None \<and> resolveDate ?E w1 ?p = (fd, w2) \<and>
            os_MkdirAll ?E w2 (subDirFor ''t'' (toLower (Ext ?p)) fd) =
              (Some (ErrFault (OpMkdir ''t/images'')), w3))"
    using hash fresh date mk by blast
  note c = C8_fatal_errors_stop_the_walk [OF pre media this, of "[FileEntry ''s/b.mp4'']"]
  from c have "fst (processFiles ?E ''t'' False ?W ([DirEntry ''s''] @ FileEntry ?p # [FileEntry ''s/b.mp4''])) =
          Some (ErrFault (OpMkdir ''t/images''))"
    by (rule conjunct1)
  moreover from c have "processFiles ?E ''t'' False ?W ([DirEntry ''s''] @ FileEntry ?p # [FileEntry ''s/b.mp4'']) =
         processFiles ?E ''t'' False ?W ([DirEntry ''s''] @ [FileEntry ?p])"
    by (rule conjunct2)
  moreover have "trace (world (snd (processFiles ?E ''t'' False ?W ([DirEntry ''s''] @ [FileEntry ?p])))) =
     [OpOpen ''s/a.jpg'', OpRead ''s/a.jpg'', OpOpen ''s/a.jpg'', OpRead ''s/a.jpg'',
      OpStat ''t/images/2023/05'', OpMkdir ''t/images'']"
    by (simp add: go_defs os_defs string_defs ex_defs)
  ultimately show ?thesis
    by simp
qed

section \<open>Duplicates\<close>

lemma walkFn_fileHashes:
  assumes "walkFn env t d st e = (r, st')"
    and "fileHashes st' h = Some p0" and "fileHashes st h \<noteq> Some p0"
  shows "e = FileEntry p0 \<and> (isImageFile (toLower (Ext p0)) \<or> isVideoFile (toLower (Ext p0))) \<and>
         fileHashes st h = None \<and> (\<exists>v. calculateFileHash env (world st) p0 = (Inr h, v))"
proof (cases e)
  case (WalkError q err)
  with assms show ?thesis by (simp add: walkFn_def)
next
  case (DirEntry q)
  with assms show ?thesis by (simp add: walkFn_def)
next
  case (FileEntry q)
  with assms(1) have pf: "processFile env t d st q = (r, st')"
    by (simp add: walkFn_def)
  from pf show ?thesis
  proof (cases rule: processFile_cases)
    case other
    with assms show ?thesis by simp
  next
    case (hashError err w1)
    with assms show ?thesis by simp
  next
    case (duplicate h' w1 p1)
    with assms show ?thesis by simp
  next
    case (mkdirError h' w1 fd w2 err w3)
    with assms FileEntry show ?thesis
      by (cases "h = h'") auto
  next
    case (named h' w1 fd w2 w3 name cs w4)
    with assms FileEntry show ?thesis
      by (cases "h = h'") auto
  qed
qed

lemma walkFn_placed:
  assumes "walkFn env t d st (FileEntry p) = (None, st')"
    and "isImageFile (toLower (Ext p)) \<or> isVideoFile (toLower (Ext p))"
    and "calculateFileHash env (world st) p = (Inr h, v)" and "fileHashes st h = None"
  shows "\<exists>q. (if d then DryRunWouldMove p q else MovedRenamed p q) \<in> set (stdout (world st'))"
proof -
  from assms(1) have pf: "processFile env t d st p = (None, st')"
    by (simp add: walkFn_def)
  from pf show ?thesis
  proof (cases rule: processFile_cases)
    case (named h' w1 fd w2 w3 name cs w4)
    from transfer_stdout [OF named(7)] named(8) show ?thesis
      by auto
  qed (use assms in auto)
qed

lemma fileHashes_first_seen:
  assumes "walkAll env t d st0 pre = (None, st)"
    and "fileHashes st h = Some p0" and "fileHashes st0 h = None"
  shows "\<exists>pre1 post1 st1 v.
           pre = pre1 @ FileEntry p0 # post1 \<and>
           walkAll env t d st0 pre1 = (None, st1) \<and> fileHashes st1 h = None \<and>
           (isImageFile (toLower (Ext p0)) \<or> isVideoFile (toLower (Ext p0))) \<and>
           calculateFileHash env (world st1) p0 = (Inr h, v) \<and>
           (\<exists>q. (if d then DryRunWouldMove p0 q else MovedRenamed p0 q) \<in> set (stdout (world st)))"
  using assms
proof (induction pre arbitrary: st rule: rev_induct)
  case Nil
  then show ?case by simp
next
  case (snoc e es)
  from snoc.prems(1) obtain sm where
    run: "walkAll env t d st0 es = (None, sm)" and step: "walkFn env t d sm e = (None, st)"
    by (auto simp: walkAll_append split: prod.splits option.splits)
  from walkFn_stdout [OF step] obtain ls where grow: "stdout (world st) = stdout (world sm) @ ls"
    by blast
  show ?case
  proof (cases "fileHashes sm h = Some p0")
    case True
    from snoc.IH [OF run True snoc.prems(3)] obtain pre1 post1 st1 v q where
      "es = pre1 @ FileEntry p0 # post1" "walkAll env t d st0 pre1 = (None, st1)"
      "fileHashes st1 h = None"
      "isImageFile (toLower (Ext p0)) \<or> isVideoFile (toLower (Ext p0))"
      "calculateFileHash env (world st1) p0 = (Inr h, v)"
      "(if d then DryRunWouldMove p0 q else MovedRenamed p0 q) \<in> set (stdout (world sm))"
      by blast
    with grow have "es @ [e] = pre1 @ FileEntry p0 # (post1 @ [e]) \<and>
           walkAll env t d st0 pre1 = (None, st1) \<and> fileHashes st1 h = None \<and>
           (isImageFile (toLower (Ext p0)) \<or> isVideoFile (toLower (Ext p0))) \<and>
           calculateFileHash env (world st1) p0 = (Inr h, v) \<and>
           (if d then DryRunWouldMove p0 q else MovedRenamed p0 q) \<in> set (stdout (world st))"
      by simp
    then show ?thesis by blast
  next
    case False
    from walkFn_fileHashes [OF step snoc.prems(2) False] obtain v where
      e: "e = FileEntry p0" and media: "isImageFile (toLower (Ext p0)) \<or> isVideoFile (toLower (Ext p0))"
      and fresh: "fileHashes sm h = None" and hash: "calculateFileHash env (world sm) p0 = (Inr h, v)"
      by blast
    from walkFn_placed [OF step [unfolded e] media hash fresh] obtain q where
      "(if d then DryRunWouldMove p0 q else MovedRenamed p0 q) \<in> set (stdout (world st))"
      by blast
    with e run fresh media hash have "es @ [e] = es @ FileEntry p0 # [] \<and>
           walkAll env t d st0 es = (None, sm) \<and> fileHashes sm h = None \<and>
           (isImageFile (toLower (Ext p0)) \<or> isVideoFile (toLower (Ext p0))) \<and>
           calculateFileHash env (world sm) p0 = (Inr h, v) \<and>
           (if d then DryRunWouldMove p0 q else MovedRenamed p0 q) \<in> set (stdout (world st))"
      by simp
    then show ?thesis by blast
  qed
qed

lemma walkFn_fileHashes_kept:
  assumes "walkFn env t d st e = (r, st')" and "fileHashes st h = Some p0"
  shows "fileHashes st' h = Some p0"
proof (cases e)
  case (WalkError q err)
  with assms show ?thesis by (simp add: walkFn_def)
next
  case (DirEntry q)
  with assms show ?thesis by (simp add: walkFn_def)
next
  case (FileEntry q)
  with assms(1) have pf: "processFile env t d st q = (r, st')"
    by (simp add: walkFn_def)
  from pf show ?thesis
  proof (cases rule: processFile_cases)
    case (mkdirError h' w1 fd w2 err w3)
    with assms show ?thesis by (cases "h = h'") auto
  next
    case (named h' w1 fd w2 w3 name cs w4)
    with assms show ?thesis by (cases "h = h'") auto
  qed (use assms in auto)
qed

lemma walkAll_fileHashes_kept:
  "walkAll env t d st es = (r, st') \<Longrightarrow> fileHashes st h = Some p0 \<Longrightarrow> fileHashes st' h = Some p0"
proof (induction es arbitrary: st)
  case Nil
  then show ?case by simp
next
  case (Cons e es)
  obtain r1 st1 where step: "walkFn env t d st e = (r1, st1)"
    by (cases "walkFn env t d st e")
  from walkFn_fileHashes_kept [OF step Cons.prems(2)] have kept: "fileHashes st1 h = Some p0" .
  show ?case
  proof (cases r1)
    case None
    with Cons.prems(1) step have "walkAll env t d st1 es = (r, st')"
      by simp
    from Cons.IH [OF this kept] show ?thesis .
  next
    case (Some err)
    with Cons.prems(1) step kept show ?thesis by simp
  qed
qed

lemma walkFn_records_hash:
  assumes "walkFn env t d st (FileEntry q) = (None, st')"
    and "isImageFile (toLower (Ext q)) \<or> isVideoFile (toLower (Ext q))"
    and "calculateFileHash env (world st) q = (Inr h, v)"
  shows "fileHashes st' h \<noteq> None"
proof -
  from assms(1) have pf: "processFile env t d st q = (None, st')"
    by (simp add: walkFn_def)
  from pf show ?thesis
    by (cases rule: processFile_cases) (use assms in auto)
qed

text \<open>
  C1, as amended. The walk so far, without error, has met an image or video file \<open>q\<close>
  with fingerprint \<open>h\<close>, and now comes to an image or video file \<open>p\<close> with the same
  fingerprint. Then \<open>p\<close> is not placed: the walk goes on, \<open>p\<close> is reported as a duplicate
  of \<open>p0\<close>, the first file of the walk with that fingerprint (which was placed), and
  nothing is made, moved or renamed. In a dry run \<open>p\<close> stays; otherwise its removal is
  tried, and either it is gone and reported deleted, or the failure is printed.
\<close>

theorem C1_later_copies_are_dropped:
  assumes "processFiles env targetDir dryRun w0 (pre1 @ FileEntry q # mid) = (None, st)"
    and "processFiles env targetDir dryRun w0 pre1 = (None, st1)"
    and "isImageFile (toLower (Ext q)) \<or> isVideoFile (toLower (Ext q))"
    and "calculateFileHash env (world st1) q = (Inr h, v1)"
    and "isImageFile (toLower (Ext p)) \<or> isVideoFile (toLower (Ext p))"
    and "calculateFileHash env (world st) p = (Inr h, w1)"
  shows "\<exists>p0 st'.
           walkFn env targetDir dryRun st (FileEntry p) = (None, st') \<and>
           (\<exists>preA postA stA vA.
              pre1 @ FileEntry q # mid = preA @ FileEntry p0 # postA \<and>
              processFiles env targetDir dryRun w0 preA = (None, stA) \<and>
              fileHashes stA h = None \<and>
              calculateFileHash env (world stA) p0 = (Inr h, vA)) \<and>
           (\<exists>dst. (if dryRun then DryRunWouldMove p0 dst else MovedRenamed p0 dst)
                    \<in> set (stdout (world st))) \<and>
           fileHashes st' = fileHashes st \<and> timestampCounter st' = timestampCounter st \<and>
           dirs (world st') = dirs (world st) \<and>
           (if dryRun then
              trace (world st') = trace (world st) @ [OpOpen p, OpRead p] \<and>
              stdout (world st') = stdout (world st) @ [DuplicateFound p p0] \<and>
              files (world st') = files (world st)
            else
              trace (world st') = trace (world st) @ [OpOpen p, OpRead p, OpRemove p] \<and>
              (stdout (world st') = stdout (world st) @ [DuplicateFound p p0, DeletedDuplicate p] \<and>
               files (world st') = (files (world st))(p := None) \<or>
               (\<exists>e. stdout (world st') = stdout (world st) @ [DuplicateFound p p0, ErrorDeleting p e] \<and>
                    files (world st') = files (world st))))"
proof -
  let ?init = "\<lparr>fileHashes = Map.empty, timestampCounter = Map.empty, world = w0\<rparr>"
  have run: "walkAll env targetDir dryRun ?init (pre1 @ FileEntry q # mid) = (None, st)"
    using assms(1) by (simp add: processFiles_def)
  have run1: "walkAll env targetDir dryRun ?init pre1 = (None, st1)"
    using assms(2) by (simp add: processFiles_def)
  from run run1 obtain st2 where
    stepq: "walkFn env targetDir dryRun st1 (FileEntry q) = (None, st2)"
    and rest: "walkAll env targetDir dryRun st2 mid = (None, st)"
    by (auto simp: walkAll_append split: prod.splits option.splits)
  from walkFn_records_hash [OF stepq assms(3,4)] obtain p0 where "fileHashes st2 h = Some p0"
    by auto
  from walkAll_fileHashes_kept [OF rest this] have seen: "fileHashes st h = Some p0" .
  have "fileHashes ?init h = None"
    by simp
  from fileHashes_first_seen [OF run seen this] obtain preA postA stA vA dst where first:
    "pre1 @ FileEntry q # mid = preA @ FileEntry p0 # postA"
    "walkAll env targetDir dryRun ?init preA = (None, stA)"
    "fileHashes stA h = None"
    "calculateFileHash env (world stA) p0 = (Inr h, vA)"
    "(if dryRun then DryRunWouldMove p0 dst else MovedRenamed p0 dst) \<in> set (stdout (world st))"
    by blast
  let ?st' = "st\<lparr>world := dropDuplicate env dryRun w1 p p0\<rparr>"
  have step: "walkFn env targetDir dryRun st (FileEntry p) = (None, ?st')"
    using processFile_duplicate [OF assms(5,6) seen] by (simp add: walkFn_def)
  have w1: "files w1 = files (world st)" "dirs w1 = dirs (world st)" "stdout w1 = stdout (world st)"
    "trace w1 = trace (world st) @ [OpOpen p, OpRead p]"
    using calculateFileHash_frame [OF assms(6)] calculateFileHash_trace [OF assms(6)] by simp_all
  have eff: "dirs (world ?st') = dirs (world st) \<and>
           (if dryRun then
              trace (world ?st') = trace (world st) @ [OpOpen p, OpRead p] \<and>
              stdout (world ?st') = stdout (world st) @ [DuplicateFound p p0] \<and>
              files (world ?st') = files (world st)
            else
              trace (world ?st') = trace (world st) @ [OpOpen p, OpRead p, OpRemove p] \<and>
              (stdout (world ?st') = stdout (world st) @ [DuplicateFound p p0, DeletedDuplicate p] \<and>
               files (world ?st') = (files (world st))(p := None) \<or>
               (\<exists>e. stdout (world ?st') = stdout (world st) @ [DuplicateFound p p0, ErrorDeleting p e] \<and>
                    files (world ?st') = files (world st))))"
    using dropDuplicate_effect [of env dryRun w1 p p0] w1 by (cases dryRun) simp_all
  have maps: "fileHashes ?st' = fileHashes st \<and> timestampCounter ?st' = timestampCounter st"
    by simp
  have firstP: "\<exists>preA postA stA vA.
              pre1 @ FileEntry q # mid = preA @ FileEntry p0 # postA \<and>
              processFiles env targetDir dryRun w0 preA = (None, stA) \<and>
              fileHashes stA h = None \<and>
              calculateFileHash env (world stA) p0 = (Inr h, vA)"
    using first(1-4) unfolding processFiles_def by blast
  have placed: "\<exists>dst. (if dryRun then DryRunWouldMove p0 dst else MovedRenamed p0 dst)
                    \<in> set (stdout (world st))"
    using first(5) by blast
  from step firstP placed maps eff show ?thesis
    by blast
qed

theorem C1_witness:
  "fst (walkFn (exEnv exifMay2023 noFault noCut) ''t'' False
         (snd (processFiles (exEnv exifMay2023 noFault noCut) ''t'' False
                 (exWorld [(''s/a.jpg'', ''AA''), (''s/b.jpg'', ''AA'')])
                 ([] @ FileEntry ''s/a.jpg'' # [])))
         (FileEntry ''s/b.jpg'')) = None \<and>
   stdout (world (snd (walkFn (exEnv exifMay2023 noFault noCut) ''t'' False
         (snd (processFiles (exEnv exifMay2023 noFault noCut) ''t'' False
                 (exWorld [(''s/a.jpg'', ''AA''), (''s/b.jpg'', ''AA'')])
                 ([] @ FileEntry ''s/a.jpg'' # [])))
         (FileEntry ''s/b.jpg'')))) =
     [MovedRenamed ''s/a.jpg'' ''t/images/2023/05/01-05-2023-10-00-00.jpg'',
      DuplicateFound ''s/b.jpg'' ''s/a.jpg'', DeletedDuplicate ''s/b.jpg''] \<and>
   files (world (snd (walkFn (exEnv exifMay2023 noFault noCut) ''t'' False
         (snd (processFiles (exEnv exifMay2023 noFault noCut) ''t'' False
                 (exWorld [(''s/a.jpg'', ''AA''), (''s/b.jpg'', ''AA'')])
                 ([] @ FileEntry ''s/a.jpg'' # [])))
         (FileEntry ''s/b.jpg'')))) ''s/b.jpg'' = None"
proof -
  let ?E = "exEnv exifMay2023 noFault noCut"
  let ?W = "exWorld [(''s/a.jpg'', ''AA''), (''s/b.jpg'', ''AA'')]"
  let ?st = "snd (processFiles ?E ''t'' False ?W ([] @ FileEntry ''s/a.jpg'' # []))"
  have run: "processFiles ?E ''t'' False ?W ([] @ FileEntry ''s/a.jpg'' # []) = (None, ?st)"
    by (simp add: go_defs os_defs string_defs ex_defs)
  have run1: "processFiles ?E ''t'' False ?W [] = (None, exState ?W)"
    by (simp add: processFiles_def exState_def)
  have mq: "isImageFile (toLower (Ext ''s/a.jpg'')) \<or> isVideoFile (toLower (Ext ''s/a.jpg''))"
    by (simp add: string_defs)
  have hq: "calculateFileHash ?E (world (exState ?W)) ''s/a.jpg'' =
              (Inr ''AA'', snd (calculateFileHash ?E (world (exState ?W)) ''s/a.jpg''))"
    by (simp add: go_defs os_defs ex_defs)
  have mp: "isImageFile (toLower (Ext ''s/b.jpg'')) \<or> isVideoFile (toLower (Ext ''s/b.jpg''))"
    by (simp add: string_defs)
  have hp: "calculateFileHash ?E (world ?st) ''s/b.jpg'' =
              (Inr ''AA'', snd (calculateFileHash ?E (world ?st) ''s/b.jpg''))"
    by (simp add: go_defs os_defs string_defs ex_defs)
  from C1_later_copies_are_dropped [OF run run1 mq hq mp hp]
  obtain st' where "walkFn ?E ''t'' False ?st (FileEntry ''s/b.jpg'') = (None, st')"
    by blast
  then have "fst (walkFn ?E ''t'' False ?st (FileEntry ''s/b.jpg'')) = None"
    by simp
  moreover have "stdout (world (snd (walkFn ?E ''t'' False ?st (FileEntry ''s/b.jpg'')))) =
     [MovedRenamed ''s/a.jpg'' ''t/images/2023/05/01-05-2023-10-00-00.jpg'',
      DuplicateFound ''s/b.jpg'' ''s/a.jpg'', DeletedDuplicate ''s/b.jpg'']"
    by (simp add: go_defs os_defs string_defs ex_defs)
  moreover have "files (world (snd (walkFn ?E ''t'' False ?st (FileEntry ''s/b.jpg'')))) ''s/b.jpg'' = None"
    by (simp add: go_defs os_defs string_defs ex_defs)
  ultimately show ?thesis
    by blast
qed

text \<open>
  C1 as stated fails for files outside the two extension tables. A text file and an
  image hold the same bytes, and the walk meets the text file first: the text file is not
  placed and stays in the source, while the image, the later of the two, is moved to the
  target and no duplicate is reported.
\<close>

theorem C1_counterexample:
  "map_option content (files (exWorld [(''s/notes.txt'', ''AA''), (''s/y.jpg'', ''AA'')]) ''s/notes.txt'') =
   map_option content (files (exWorld [(''s/notes.txt'', ''AA''), (''s/y.jpg'', ''AA'')]) ''s/y.jpg'') \<and>
   fst (processFiles (exEnv exifMay2023 noFault noCut) ''t'' False
      (exWorld [(''s/notes.txt'', ''AA''), (''s/y.jpg'', ''AA'')])
      [FileEntry ''s/notes.txt'', FileEntry ''s/y.jpg'']) = None \<and>
   stdout (world (snd (processFiles (exEnv exifMay2023 noFault noCut) ''t'' False
      (exWorld [(''s/notes.txt'', ''AA''), (''s/y.jpg'', ''AA'')])
      [FileEntry ''s/notes.txt'', FileEntry ''s/y.jpg'']))) =
     [MovedRenamed ''s/y.jpg'' ''t/images/2023/05/01-05-2023-10-00-00.jpg''] \<and>
   map_option content (files (world (snd (processFiles (exEnv exifMay2023 noFault noCut) ''t'' False
      (exWorld [(''s/notes.txt'', ''AA''), (''s/y.jpg'', ''AA'')])
      [FileEntry ''s/notes.txt'', FileEntry ''s/y.jpg'']))) ''s/notes.txt'') = Some ''AA'' \<and>
   map_option content (files (world (snd (processFiles (exEnv exifMay2023 noFault noCut) ''t'' False
      (exWorld [(''s/notes.txt'', ''AA''), (''s/y.jpg'', ''AA'')])
      [FileEntry ''s/notes.txt'', FileEntry ''s/y.jpg''])))
      ''t/images/2023/05/01-05-2023-10-00-00.jpg'') = Some ''AA''"
  by (simp add: go_defs os_defs string_defs ex_defs)

section \<open>Names for equal timestamps\<close>

lemma video_not_image: "isVideoFile ext \<Longrightarrow> \<not> isImageFile ext"
  by (auto simp: isVideoFile_def isImageFile_def)

lemma allocName_fresh:
  "counters ts = None \<Longrightarrow> allocName counters ts ext = (ts @ ext, counters(ts \<mapsto> 0))"
  by (simp add: allocName_def)

lemma allocName_again:
  "counters ts = Some k \<Longrightarrow>
   allocName counters ts ext = (ts @ ''-'' @ zeroPad 2 (decimal (Suc k)) @ ext, counters(ts \<mapsto> Suc k))"
  by (simp add: allocName_def)

lemma filter_pos: "x \<in> set xs \<Longrightarrow> P x \<Longrightarrow> 0 < length (filter P xs)"
  by (induction xs) auto

lemma allocName_countersAfter:
  "allocName (countersAfter done) ts ext =
     (suffixed ts (length (filter (\<lambda>r. fst r = ts) done)) ext, countersAfter (done @ [(ts, ext)]))"
proof (cases "ts \<in> fst ` set done")
  case False
  then have none: "countersAfter done ts = None"
    by (simp add: countersAfter_def)
  from False have zero: "filter (\<lambda>r. fst r = ts) done = []"
    by (auto simp: filter_empty_conv)
  have "(countersAfter done)(ts \<mapsto> 0) = countersAfter (done @ [(ts, ext)])"
    using zero by (auto simp: countersAfter_def fun_eq_iff)
  with allocName_fresh [of "countersAfter done" ts ext] none zero show ?thesis
    by (simp add: suffixed_def)
next
  case True
  then obtain r where "r \<in> set done" "fst r = ts"
    by auto
  then have pos: "0 < length (filter (\<lambda>r. fst r = ts) done)"
    using filter_pos [of r "done" "\<lambda>r. fst r = ts"] by simp
  from True have some: "countersAfter done ts = Some (length (filter (\<lambda>r. fst r = ts) done) - 1)"
    by (simp add: countersAfter_def)
  have "(countersAfter done)(ts \<mapsto> Suc (length (filter (\<lambda>r. fst r = ts) done) - 1)) =
        countersAfter (done @ [(ts, ext)])"
    using pos by (auto simp: countersAfter_def fun_eq_iff)
  with allocName_again [of "countersAfter done" ts _ ext] some pos show ?thesis
    by (simp add: suffixed_def)
qed

lemma allocSeq_countersAfter:
  "i < length reqs \<Longrightarrow>
   allocSeq (countersAfter done) reqs ! i =
     suffixed (fst (reqs ! i))
       (length (filter (\<lambda>r. fst r = fst (reqs ! i)) (done @ take i reqs))) (snd (reqs ! i))"
proof (induction reqs arbitrary: "done" i)
  case Nil
  then show ?case by simp
next
  case (Cons req reqs)
  obtain ts ext where req: "req = (ts, ext)"
    by (cases req)
  show ?case
  proof (cases i)
    case 0
    then show ?thesis
      by (simp add: req allocName_countersAfter)
  next
    case (Suc j)
    with Cons.prems have "j < length reqs"
      by simp
    from Cons.IH [OF this, of "done @ [(ts, ext)]"] Suc show ?thesis
      by (simp add: req allocName_countersAfter)
  qed
qed

text \<open>
  The requests of a run are served in order, from the empty map. The file name of
  request \<open>i\<close> is made of its timestamp string, of the number of earlier requests with
  the same timestamp string, and of its extension.
\<close>

lemma allocSeq_names:
  assumes "i < length reqs"
  shows "allocSeq Map.empty reqs ! i =
           suffixed (fst (reqs ! i))
             (length (filter (\<lambda>r. fst r = fst (reqs ! i)) (take i reqs))) (snd (reqs ! i))"
proof -
  have "countersAfter [] = Map.empty"
    by (simp add: countersAfter_def fun_eq_iff)
  with allocSeq_countersAfter [OF assms, of "[]"] show ?thesis
    by simp
qed

lemma allocSeq_example:
  "allocSeq Map.empty
     [(''01-05-2023-10-00-00'', ''.jpg''), (''01-05-2023-10-00-00'', ''.jpg''),
      (''02-05-2023-10-00-00'', ''.jpg''), (''01-05-2023-10-00-00'', ''.mp4'')] ! 3 =
   ''01-05-2023-10-00-00-02.mp4'' \<and>
   allocSeq Map.empty
     [(''01-05-2023-10-00-00'', ''.jpg''), (''01-05-2023-10-00-00'', ''.jpg''),
      (''02-05-2023-10-00-00'', ''.jpg''), (''01-05-2023-10-00-00'', ''.mp4'')] =
   [''01-05-2023-10-00-00.jpg'', ''01-05-2023-10-00-00-01.jpg'', ''02-05-2023-10-00-00.jpg'',
    ''01-05-2023-10-00-00-02.mp4'']"
proof -
  have "(3::nat) < length
     [(''01-05-2023-10-00-00'', ''.jpg''), (''01-05-2023-10-00-00'', ''.jpg''),
      (''02-05-2023-10-00-00'', ''.jpg''), (''01-05-2023-10-00-00'', ''.mp4'')]"
    by simp
  from allocSeq_names [OF this]
  have "allocSeq Map.empty
     [(''01-05-2023-10-00-00'', ''.jpg''), (''01-05-2023-10-00-00'', ''.jpg''),
      (''02-05-2023-10-00-00'', ''.jpg''), (''01-05-2023-10-00-00'', ''.mp4'')] ! 3 =
   ''01-05-2023-10-00-00-02.mp4''"
    by (simp add: suffixed_def string_defs decimal_small)
  moreover have "allocSeq Map.empty
     [(''01-05-2023-10-00-00'', ''.jpg''), (''01-05-2023-10-00-00'', ''.jpg''),
      (''02-05-2023-10-00-00'', ''.jpg''), (''01-05-2023-10-00-00'', ''.mp4'')] =
   [''01-05-2023-10-00-00.jpg'', ''01-05-2023-10-00-00-01.jpg'', ''02-05-2023-10-00-00.jpg'',
    ''01-05-2023-10-00-00-02.mp4'']"
    by (simp add: allocName_def string_defs decimal_small)
  ultimately show ?thesis
    by simp
qed

lemma processFile_counters:
  assumes "processFile env t d st p = (r, st')"
  shows "timestampCounter st' = timestampCounter st \<or>
         (\<exists>fd name. allocName (timestampCounter st) (formatTimestamp fd) (toLower (Ext p)) =
                       (name, timestampCounter st'))"
  using assms by (cases rule: processFile_cases) auto

section \<open>One counter for images and videos\<close>

text \<open>
  C10. An image is given a name for a timestamp string that has no counter yet, and the
  next file is a video whose date formats to the same string. The image goes to
  \<^verbatim>\<open>images/<YYYY>/<MM>\<close> under the bare name; the video goes to
  \<^verbatim>\<open>videos/<YYYY>/<MM>\<close>, a directory the image was not put in, and still its name
  carries \<^verbatim>\<open>-01\<close>: the counter is found under the timestamp string alone.
\<close>

theorem C10_one_counter_for_images_and_videos:
  assumes "isImageFile (toLower (Ext p1))"
    and "calculateFileHash env (world st) p1 = (Inr h1, w1)"
    and "fileHashes st h1 = None"
    and "resolveDate env w1 p1 = (d1, w2)"
    and "os_MkdirAll env w2 (subDirFor targetDir (toLower (Ext p1)) d1) = (None, w3)"
    and "timestampCounter st (formatTimestamp d1) = None"
    and "walkFn env targetDir dryRun st (FileEntry p1) = (None, st1)"
    and "isVideoFile (toLower (Ext p2))"
    and "calculateFileHash env (world st1) p2 = (Inr h2, v1)"
    and "fileHashes st1 h2 = None"
    and "resolveDate env v1 p2 = (d2, v2)"
    and "os_MkdirAll env v2 (subDirFor targetDir (toLower (Ext p2)) d2) = (None, v3)"
    and "formatTimestamp d2 = formatTimestamp d1"
  shows "transfer env dryRun w3 p1
           (Join [Join [targetDir, ''images'', fmtYear d1, fmt2 (month d1)],
                  formatTimestamp d1 @ toLower (Ext p1)]) = (None, world st1) \<and>
         (\<exists>r st2.
            walkFn env targetDir dryRun st1 (FileEntry p2) = (r, st2) \<and>
            transfer env dryRun v3 p2
              (Join [Join [targetDir, ''videos'', fmtYear d2, fmt2 (month d2)],
                     formatTimestamp d1 @ ''-01'' @ toLower (Ext p2)]) = (r, world st2) \<and>
            timestampCounter st2 (formatTimestamp d1) = Some 1)"
proof -
  let ?ts = "formatTimestamp d1"
  let ?e1 = "toLower (Ext p1)"
  let ?e2 = "toLower (Ext p2)"
  have m1: "isImageFile ?e1 \<or> isVideoFile ?e1"
    using assms(1) by simp
  have m2: "isImageFile ?e2 \<or> isVideoFile ?e2"
    using assms(8) by simp
  have sd1: "subDirFor targetDir ?e1 d1 = Join [targetDir, ''images'', fmtYear d1, fmt2 (month d1)]"
    using assms(1) by (simp add: subDirFor_def)
  have sd2: "subDirFor targetDir ?e2 d2 = Join [targetDir, ''videos'', fmtYear d2, fmt2 (month d2)]"
    using assms(8) video_not_image [OF assms(8)] by (simp add: subDirFor_def)
  have a1: "allocName (timestampCounter st) ?ts ?e1 = (?ts @ ?e1, (timestampCounter st)(?ts \<mapsto> 0))"
    using assms(6) by (simp add: allocName_def)
  obtain r1 w4 where t1: "transfer env dryRun w3 p1 (Join [subDirFor targetDir ?e1 d1, ?ts @ ?e1]) = (r1, w4)"
    by (cases "transfer env dryRun w3 p1 (Join [subDirFor targetDir ?e1 d1, ?ts @ ?e1])")
  from processFile_named [OF m1 assms(2,3,4,5) a1 t1] assms(7)
  have r1: "r1 = None"
    and st1: "st1 = \<lparr>fileHashes = (fileHashes st)(h1 \<mapsto> p1),
                     timestampCounter = (timestampCounter st)(?ts \<mapsto> 0), world = w4\<rparr>"
    by (simp_all add: walkFn_def)
  have first: "transfer env dryRun w3 p1
           (Join [Join [targetDir, ''images'', fmtYear d1, fmt2 (month d1)], ?ts @ ?e1]) =
           (None, world st1)"
    using t1 r1 st1 sd1 by simp
  have c1: "timestampCounter st1 (formatTimestamp d2) = Some 0"
    using st1 assms(13) by simp
  have a2: "allocName (timestampCounter st1) (formatTimestamp d2) ?e2 =
              (?ts @ ''-01'' @ ?e2, (timestampCounter st1)(?ts \<mapsto> 1))"
    using c1 assms(13) by (simp add: allocName_def zeroPad_def decimal_1)
  obtain r2 v4 where t2:
    "transfer env dryRun v3 p2 (Join [subDirFor targetDir ?e2 d2, ?ts @ ''-01'' @ ?e2]) = (r2, v4)"
    by (cases "transfer env dryRun v3 p2 (Join [subDirFor targetDir ?e2 d2, ?ts @ ''-01'' @ ?e2])")
  let ?st2 = "\<lparr>fileHashes = (fileHashes st1)(h2 \<mapsto> p2),
               timestampCounter = (timestampCounter st1)(?ts \<mapsto> 1), world = v4\<rparr>"
  from processFile_named [OF m2 assms(9,10,11,12) a2 t2]
  have "walkFn env targetDir dryRun st1 (FileEntry p2) = (r2, ?st2)"
    by (simp add: walkFn_def)
  moreover have "transfer env dryRun v3 p2
              (Join [Join [targetDir, ''videos'', fmtYear d2, fmt2 (month d2)],
                     ?ts @ ''-01'' @ ?e2]) = (r2, world ?st2)"
    using t2 sd2 by simp
  moreover have "timestampCounter ?st2 ?ts = Some 1"
    by simp
  ultimately show ?thesis
    using first by blast
qed

theorem C10_witness:
  "stdout (world (snd (processFiles (exEnv exifMay2023 noFault noCut) ''t'' True
      (exWorld [(''s/a.jpg'', ''AA''), (''s/b.mp4'', ''BB'')])
      [FileEntry ''s/a.jpg'', FileEntry ''s/b.mp4'']))) =
     [DryRunWouldMove ''s/a.jpg'' ''t/images/2023/05/01-05-2023-10-00-00.jpg'',
      DryRunWouldMove ''s/b.mp4'' ''t/videos/2023/05/01-05-2023-10-00-00-01.mp4'']"
proof -
  let ?E = "exEnv exifMay2023 noFault noCut"
  let ?W = "exWorld [(''s/a.jpg'', ''AA''), (''s/b.mp4'', ''BB'')]"
  let ?st = "exState ?W"
  let ?p1 = "''s/a.jpg''"
  let ?p2 = "''s/b.mp4''"
  let ?w1 = "snd (calculateFileHash ?E (world ?st) ?p1)"
  let ?w2 = "snd (resolveDate ?E ?w1 ?p1)"
  let ?w3 = "snd (os_MkdirAll ?E ?w2 (subDirFor ''t'' (toLower (Ext ?p1)) t2023))"
  let ?st1 = "snd (walkFn ?E ''t'' True ?st (FileEntry ?p1))"
  let ?v1 = "snd (calculateFileHash ?E (world ?st1) ?p2)"
  let ?v2 = "snd (resolveDate ?E ?v1 ?p2)"
  let ?v3 = "snd (os_MkdirAll ?E ?v2 (subDirFor ''t'' (toLower (Ext ?p2)) t2023))"
  have h1: "isImageFile (toLower (Ext ?p1))"
    by (simp add: string_defs)
  have h2: "calculateFileHash ?E (world ?st) ?p1 = (Inr ''AA'', ?w1)"
    by (simp add: go_defs os_defs ex_defs)
  have h3: "fileHashes ?st ''AA'' = None"
    by (simp add: ex_defs)
  have h4: "resolveDate ?E ?w1 ?p1 = (t2023, ?w2)"
    by (simp add: go_defs os_defs string_defs ex_defs)
  have h5: "os_MkdirAll ?E ?w2 (subDirFor ''t'' (toLower (Ext ?p1)) t2023) = (None, ?w3)"
    by (simp add: go_defs os_defs string_defs ex_defs)
  have h6: "timestampCounter ?st (formatTimestamp t2023) = None"
    by (simp add: ex_defs)
  have h7: "walkFn ?E ''t'' True ?st (FileEntry ?p1) = (None, ?st1)"
    by (simp add: go_defs os_defs string_defs ex_defs)
  have h8: "isVideoFile (toLower (Ext ?p2))"
    by (simp add: string_defs)
  have h9: "calculateFileHash ?E (world ?st1) ?p2 = (Inr ''BB'', ?v1)"
    by (simp add: go_defs os_defs string_defs ex_defs)
  have h10: "fileHashes ?st1 ''BB'' = None"
    by (simp add: go_defs os_defs string_defs ex_defs)
  have h11: "resolveDate ?E ?v1 ?p2 = (t2023, ?v2)"
    by (simp add: go_defs os_defs string_defs ex_defs)
  have h12: "os_MkdirAll ?E ?v2 (subDirFor ''t'' (toLower (Ext ?p2)) t2023) = (None, ?v3)"
    by (simp add: go_defs os_defs string_defs ex_defs)
  from C10_one_counter_for_images_and_videos [OF h1 h2 h3 h4 h5 h6 h7 h8 h9 h10 h11 h12 refl]
  obtain r st2 where
    step: "walkFn ?E ''t'' True ?st1 (FileEntry ?p2) = (r, st2)" and
    tr: "transfer ?E True ?v3 ?p2
           (Join [Join [''t'', ''videos'', fmtYear t2023, fmt2 (month t2023)],
                  formatTimestamp t2023 @ ''-01'' @ toLower (Ext ?p2)]) = (r, world st2)"
    by blast
  have "walkAll ?E ''t'' True ?st [FileEntry ?p1, FileEntry ?p2] =
          (case walkFn ?E ''t'' True ?st (FileEntry ?p1) of
             (Some err, st') \<Rightarrow> (Some err, st')
           | (None, st') \<Rightarrow> walkAll ?E ''t'' True st' [FileEntry ?p2])"
    by simp
  also have "\<dots> = walkAll ?E ''t'' True ?st1 [FileEntry ?p2]"
    by (subst h7) simp
  also have "\<dots> = (r, st2)"
    using step by (cases r) simp_all
  finally have run: "processFiles ?E ''t'' True ?W [FileEntry ?p1, FileEntry ?p2] = (r, st2)"
    by (simp add: processFiles_def exState_def)
  have dst: "Join [Join [''t'', ''videos'', fmtYear t2023, fmt2 (month t2023)],
                  formatTimestamp t2023 @ ''-01'' @ toLower (Ext ?p2)] =
             ''t/videos/2023/05/01-05-2023-10-00-00-01.mp4''"
    by (simp add: string_defs t2023_def)
  have "r = None"
    using tr by (simp add: transfer_def)
  with transfer_stdout [OF tr] dst have "stdout (world st2) = stdout ?v3 @
     [DryRunWouldMove ?p2 ''t/videos/2023/05/01-05-2023-10-00-00-01.mp4'']"
    by simp
  moreover have "stdout ?v3 = [DryRunWouldMove ?p1 ''t/images/2023/05/01-05-2023-10-00-00.jpg'']"
    by (simp add: go_defs os_defs string_defs ex_defs)
  ultimately show ?thesis
    using run by simp
qed

section \<open>Destination paths are told apart\<close>

lemma split_not_Nil: "split c s \<noteq> []"
  by (induction s) (auto split: list.splits)

lemma split_no_sep: "c \<notin> set s \<Longrightarrow> split c s = [s]"
  by (induction s) auto

lemma split_append: "split c (xs @ c # ys) = split c xs @ split c ys"
proof (induction xs)
  case Nil
  then show ?case by simp
next
  case (Cons x xs)
  obtain g gs where "split c xs = g # gs"
    using split_not_Nil [of c xs] by (cases "split c xs") auto
  with Cons show ?case by simp
qed

lemma append_sep_inj:
  assumes "a @ (c::char) # x = b @ c # y" and "c \<notin> set x" and "c \<notin> set y"
  shows "a = b \<and> x = y"
proof -
  have "split c (a @ c # x) = split c (b @ c # y)"
    using assms(1) by simp
  then have "split c a @ [x] = split c b @ [y]"
    using assms(2,3) by (simp add: split_append split_no_sep)
  then have "x = y"
    by simp
  with assms(1) show ?thesis
    by simp
qed

lemma digit_lt10: "d < 10 \<Longrightarrow> d = 0 \<or> d = 1 \<or> d = 2 \<or> d = 3 \<or> d = 4 \<or> d = 5 \<or> d = 6 \<or> d = 7 \<or> d = 8 \<or> d = (9::nat)"
  by arith

lemma digitChar_digit: "d < 10 \<Longrightarrow> digitChar d \<in> set ''0123456789''"
  using digit_lt10 [of d] by (auto simp: digitChar_def)

lemma digitVal_digitChar: "d < 10 \<Longrightarrow> digitVal (digitChar d) = d"
  using digit_lt10 [of d] by (auto simp: digitChar_def digitVal_def)

lemma isDigits_append [simp]: "isDigits (xs @ ys) \<longleftrightarrow> isDigits xs \<and> isDigits ys"
  by (simp add: isDigits_def)

lemma isDigits_decimal: "isDigits (decimal n)"
proof (induction n rule: decimal.induct)
  case (1 n)
  show ?case
  proof (cases "n < 10")
    case True
    then show ?thesis
      using digitChar_digit [of n] by (subst decimal.simps) (simp add: isDigits_def)
  next
    case False
    have "n mod 10 < 10" by simp
    with False 1 digitChar_digit [of "n mod 10"] show ?thesis
      by (subst decimal.simps) (simp add: isDigits_def)
  qed
qed

lemma decimal_not_Nil: "decimal n \<noteq> []"
  by (subst decimal.simps) simp

lemma isDigits_zeros: "isDigits (replicate k (CHR ''0''))"
  by (induction k) (simp_all add: isDigits_def)

lemma isDigits_zeroPad: "isDigits (zeroPad w (decimal n))"
  by (simp add: zeroPad_def isDigits_zeros isDigits_decimal)

lemma zeroPad_not_Nil: "zeroPad w (decimal n) \<noteq> []"
  by (simp add: zeroPad_def decimal_not_Nil)

lemma digit_no_mark:
  "c \<in> set ''0123456789'' \<Longrightarrow> c \<noteq> CHR ''-'' \<and> c \<noteq> CHR ''.'' \<and> c \<noteq> CHR ''/''"
  by auto

lemma isDigits_no_marks:
  assumes "isDigits s"
  shows "CHR ''-'' \<notin> set s" and "CHR ''.'' \<notin> set s" and "CHR ''/'' \<notin> set s"
  using assms digit_no_mark unfolding isDigits_def list_all_iff by blast+

lemma undec_snoc: "undec (s @ [c]) = 10 * undec s + digitVal c"
  by (simp add: undec_def)

lemma undec_decimal: "undec (decimal n) = n"
proof (induction n rule: decimal.induct)
  case (1 n)
  show ?case
  proof (cases "n < 10")
    case True
    then show ?thesis
      by (subst decimal.simps) (simp add: undec_def digitVal_digitChar)
  next
    case False
    have "n mod 10 < 10" by simp
    with False 1 show ?thesis
      by (subst decimal.simps) (simp add: undec_snoc digitVal_digitChar)
  qed
qed

lemma undec_zeros: "foldl (\<lambda>a c. 10 * a + digitVal c) 0 (replicate k (CHR ''0'')) = 0"
  by (induction k) (simp_all add: digitVal_def)

lemma undec_zeroPad: "undec (zeroPad w s) = undec s"
  by (simp add: undec_def zeroPad_def undec_zeros)

lemma zeroPad_decimal_inj:
  assumes "zeroPad w (decimal k) = zeroPad w (decimal k')"
  shows "k = k'"
proof -
  have "undec (zeroPad w (decimal k)) = undec (zeroPad w (decimal k'))"
    using assms by simp
  then show ?thesis
    by (simp add: undec_zeroPad undec_decimal)
qed

lemma fmt2_facts: "CHR ''-'' \<notin> set (fmt2 n)" "CHR ''.'' \<notin> set (fmt2 n)" "CHR ''/'' \<notin> set (fmt2 n)"
  "fmt2 n \<noteq> []"
  using isDigits_no_marks [OF isDigits_zeroPad [of 2 n]] zeroPad_not_Nil [of 2 n]
  by (simp_all add: fmt2_def)

lemma pad4_facts:
  "CHR ''-'' \<notin> set (zeroPad 4 (decimal n))" "CHR ''.'' \<notin> set (zeroPad 4 (decimal n))"
  "CHR ''/'' \<notin> set (zeroPad 4 (decimal n))"
  using isDigits_no_marks [OF isDigits_zeroPad [of 4 n]] by simp_all

lemma split_fmtYear:
  "split (CHR ''-'') (fmtYear fd) =
     (if year fd < 0 then [[], zeroPad 4 (decimal (nat \<bar>year fd\<bar>))]
      else [zeroPad 4 (decimal (nat \<bar>year fd\<bar>))])"
  by (simp add: fmtYear_def split_no_sep pad4_facts)

lemma split_formatTimestamp:
  "split (CHR ''-'') (formatTimestamp fd) =
     [fmt2 (day fd), fmt2 (month fd)] @
     (if year fd < 0 then [[], zeroPad 4 (decimal (nat \<bar>year fd\<bar>))]
      else [zeroPad 4 (decimal (nat \<bar>year fd\<bar>))]) @
     [fmt2 (hour fd), fmt2 (minute fd), fmt2 (second fd)]"
proof -
  have "formatTimestamp fd =
     fmt2 (day fd) @ CHR ''-'' # (fmt2 (month fd) @ CHR ''-'' # (fmtYear fd @ CHR ''-'' #
       (fmt2 (hour fd) @ CHR ''-'' # (fmt2 (minute fd) @ CHR ''-'' # fmt2 (second fd)))))"
    by (simp add: formatTimestamp_def)
  then show ?thesis
    by (simp add: split_append split_fmtYear split_no_sep [OF fmt2_facts(1)])
qed

lemma formatTimestamp_no_marks:
  "CHR ''.'' \<notin> set (formatTimestamp fd)" "CHR ''/'' \<notin> set (formatTimestamp fd)"
  by (auto simp: formatTimestamp_def fmtYear_def fmt2_facts pad4_facts)

lemma formatTimestamp_starts: "\<exists>c cs. formatTimestamp fd = c # cs \<and> c \<noteq> CHR ''.''"
proof -
  obtain c cs where f: "fmt2 (day fd) = c # cs"
    using fmt2_facts(4) [of "day fd"] by (cases "fmt2 (day fd)") auto
  with fmt2_facts(2) [of "day fd"] have "c \<noteq> CHR ''.''"
    by auto
  with f show ?thesis
    by (simp add: formatTimestamp_def)
qed

text \<open>The extensions of the two tables: a dot, then bytes that are neither dots nor separators.\<close>

lemma media_ext:
  assumes "isImageFile ext \<or> isVideoFile ext"
  shows "\<exists>e. ext = CHR ''.'' # e \<and> CHR ''.'' \<notin> set e \<and> CHR ''/'' \<notin> set e"
  using assms by (auto simp: isImageFile_def isVideoFile_def)

lemma suffixed_stem: "suffixed ts k ext = suffixed ts k [] @ ext"
  by (simp add: suffixed_def)

lemma stem_no_marks:
  "CHR ''.'' \<notin> set (suffixed (formatTimestamp fd) k [])"
  "CHR ''/'' \<notin> set (suffixed (formatTimestamp fd) k [])"
  using isDigits_no_marks [OF isDigits_zeroPad [of 2 k]]
  by (auto simp: suffixed_def formatTimestamp_no_marks)

lemma stem_inj:
  assumes "suffixed (formatTimestamp a) k [] = suffixed (formatTimestamp b) k' []"
  shows "formatTimestamp a = formatTimestamp b \<and> k = k'"
proof -
  have pad: "CHR ''-'' \<notin> set (zeroPad 2 (decimal n))" for n
    using isDigits_no_marks(1) [OF isDigits_zeroPad [of 2 n]] .
  have clash: False
    if eq: "formatTimestamp x = formatTimestamp y @ CHR ''-'' # zeroPad 2 (decimal n)" for x y n
  proof -
    have "split (CHR ''-'') (formatTimestamp x) =
          split (CHR ''-'') (formatTimestamp y) @ [zeroPad 2 (decimal n)]"
      by (subst eq) (simp add: split_append split_no_sep [OF pad])
    then show False
      using zeroPad_not_Nil [of 4 "nat \<bar>year y\<bar>"]
      by (simp add: split_formatTimestamp split: if_splits)
  qed
  show ?thesis
  proof (cases "k = 0")
    case k0: True
    show ?thesis
    proof (cases "k' = 0")
      case True
      with k0 assms show ?thesis by (simp add: suffixed_def)
    next
      case False
      with k0 assms clash [of a b k'] show ?thesis by (simp add: suffixed_def)
    qed
  next
    case kpos: False
    show ?thesis
    proof (cases "k' = 0")
      case True
      with kpos assms clash [of b a k] show ?thesis by (simp add: suffixed_def)
    next
      case False
      with kpos assms have
        "formatTimestamp a @ CHR ''-'' # zeroPad 2 (decimal k) =
         formatTimestamp b @ CHR ''-'' # zeroPad 2 (decimal k')"
        by (simp add: suffixed_def)
      from append_sep_inj [OF this pad pad] zeroPad_decimal_inj show ?thesis
        by blast
    qed
  qed
qed

lemma suffixed_inj:
  assumes "suffixed (formatTimestamp a) k ext = suffixed (formatTimestamp b) k' ext'"
    and "isImageFile ext \<or> isVideoFile ext" and "isImageFile ext' \<or> isVideoFile ext'"
  shows "formatTimestamp a = formatTimestamp b \<and> k = k'"
proof -
  from media_ext [OF assms(2)] obtain e where e: "ext = CHR ''.'' # e" "CHR ''.'' \<notin> set e"
    by blast
  from media_ext [OF assms(3)] obtain e' where e': "ext' = CHR ''.'' # e'" "CHR ''.'' \<notin> set e'"
    by blast
  have "suffixed (formatTimestamp a) k [] @ CHR ''.'' # e =
        suffixed (formatTimestamp b) k' [] @ CHR ''.'' # e'"
    using assms(1) e(1) e'(1) suffixed_stem [of _ _ "CHR ''.'' # e"]
      suffixed_stem [of _ _ "CHR ''.'' # e'"] by simp
  from append_sep_inj [OF this e(2) e'(2)] stem_inj show ?thesis
    by blast
qed

text \<open>The last element of a joined path is the file name.\<close>

lemma sepJoin_snoc:
  "sepJoin s (xs @ [x]) = (if xs = [] then x else sepJoin s xs @ s @ x)"
  by (induction s xs rule: sepJoin.induct) auto

lemma last_split_Clean:
  assumes "split (CHR ''/'') q = cs @ [name]"
    and "CHR ''/'' \<notin> set name" and "name \<noteq> []" and "name \<noteq> ''.''" and "name \<noteq> ''..''"
  shows "last (split (CHR ''/'') (Clean q)) = name"
proof -
  have q: "q \<noteq> []"
    using assms(1,3) by (cases q) auto
  define rooted where "rooted = (hd q = CHR ''/'')"
  define st where "st = foldl (cleanStep rooted) [] cs"
  have "foldl (cleanStep rooted) [] (split (CHR ''/'') q) = name # st"
    using assms(3,4,5) by (simp add: assms(1) st_def cleanStep_def)
  then have cl: "Clean q = (if rooted then ''/'' else []) @ sepJoin ''/'' (rev st @ [name])"
    using q assms(3) by (auto simp: Clean_def rooted_def Let_def sepJoin_snoc)
  have one: "split (CHR ''/'') name = [name]"
    using assms(2) by (rule split_no_sep)
  show ?thesis
  proof (cases "rev st = []")
    case True
    then show ?thesis
      using cl one split_append [of "CHR ''/''" "[]" name] by (auto simp: sepJoin_snoc)
  next
    case False
    then have "Clean q = ((if rooted then ''/'' else []) @ sepJoin ''/'' (rev st)) @ CHR ''/'' # name"
      using cl by (simp add: sepJoin_snoc)
    then show ?thesis
      by (simp only: split_append one) simp
  qed
qed

lemma last_split_Join:
  assumes "CHR ''/'' \<notin> set name" and "name \<noteq> []" and "name \<noteq> ''.''" and "name \<noteq> ''..''"
  shows "last (split (CHR ''/'') (Join [sd, name])) = name"
proof (cases "sd = []")
  case True
  have "split (CHR ''/'') name = [] @ [name]"
    using assms(1) by (simp add: split_no_sep)
  from last_split_Clean [OF this assms] True assms(2) show ?thesis
    by simp
next
  case False
  have "split (CHR ''/'') (sd @ CHR ''/'' # name) = split (CHR ''/'') sd @ [name]"
    using assms(1) by (simp add: split_append split_no_sep)
  from last_split_Clean [OF this assms] False show ?thesis
    by simp
qed

lemma last_split_newPath:
  assumes "isImageFile ext \<or> isVideoFile ext"
  shows "last (split (CHR ''/'') (Join [sd, suffixed (formatTimestamp fd) k ext])) =
           suffixed (formatTimestamp fd) k ext"
proof -
  let ?n = "suffixed (formatTimestamp fd) k ext"
  from media_ext [OF assms] obtain e where e: "ext = CHR ''.'' # e" "CHR ''/'' \<notin> set e"
    by blast
  obtain c cs where c: "formatTimestamp fd = c # cs" "c \<noteq> CHR ''.''"
    using formatTimestamp_starts by blast
  have hd: "\<exists>r. ?n = c # r"
    using c(1) by (simp add: suffixed_def)
  have "CHR ''/'' \<notin> set ?n"
    using stem_no_marks(2) [of fd k] e by (subst suffixed_stem) simp
  moreover have "?n \<noteq> []" "?n \<noteq> ''.''" "?n \<noteq> ''..''"
    using hd c(2) by auto
  ultimately show ?thesis
    by (rule last_split_Join)
qed

lemma dests_append: "dests (xs @ ys) = dests xs @ dests ys"
  by (induction xs rule: dests.induct) simp_all

lemma allocName_suffixed:
  "allocName counters ts ext =
     (suffixed ts (case counters ts of None \<Rightarrow> 0 | Some k \<Rightarrow> Suc k) ext,
      counters(ts \<mapsto> (case counters ts of None \<Rightarrow> 0 | Some k \<Rightarrow> Suc k)))"
  by (simp add: allocName_def suffixed_def Let_def split: option.splits)

text \<open>
  What one file adds to the lines printed: either no destination, with the counters as
  they were, or at most one destination whose file name carries the new counter value of
  its timestamp string.
\<close>

lemma processFile_dests:
  assumes "processFile env t d st p = (r, st')"
  shows "\<exists>new. stdout (world st') = stdout (world st) @ new \<and>
           (dests new = [] \<and> timestampCounter st' = timestampCounter st \<or>
            (\<exists>fd ext q.
               (isImageFile ext \<or> isVideoFile ext) \<and>
               timestampCounter st' =
                 (timestampCounter st)(formatTimestamp fd \<mapsto>
                    (case timestampCounter st (formatTimestamp fd) of None \<Rightarrow> 0 | Some k \<Rightarrow> Suc k)) \<and>
               last (split (CHR ''/'') q) =
                 suffixed (formatTimestamp fd)
                    (case timestampCounter st (formatTimestamp fd) of None \<Rightarrow> 0 | Some k \<Rightarrow> Suc k) ext \<and>
               (dests new = [] \<or> dests new = [q])))"
  using assms
proof (cases rule: processFile_cases)
  case other
  then show ?thesis by simp
next
  case (hashError err w1)
  with calculateFileHash_frame [OF hashError(2)] show ?thesis by simp
next
  case (duplicate h w1 p0)
  from calculateFileHash_frame [OF duplicate(2)] dropDuplicate_effect [of env d w1 p p0]
  have "\<exists>new. stdout (dropDuplicate env d w1 p p0) = stdout (world st) @ new \<and> dests new = []"
    by (cases d) auto
  with duplicate show ?thesis by auto
next
  case (mkdirError h w1 fd w2 err w3)
  from calculateFileHash_frame [OF mkdirError(2)] resolveDate_frame [OF mkdirError(4)]
    os_MkdirAll_frame [OF mkdirError(5)]
  have "\<exists>new. stdout w3 = stdout (world st) @ new \<and> dests new = []"
    by auto
  with mkdirError show ?thesis by auto
next
  case (named h w1 fd w2 w3 name cs w4)
  let ?ts = "formatTimestamp fd"
  let ?c = "case timestampCounter st ?ts of None \<Rightarrow> 0 | Some k \<Rightarrow> Suc k"
  let ?ext = "toLower (Ext p)"
  let ?q = "Join [subDirFor t ?ext fd, suffixed ?ts ?c ?ext]"
  from named(6) have name: "name = suffixed ?ts ?c ?ext"
    and cs: "cs = (timestampCounter st)(?ts \<mapsto> ?c)"
    by (simp_all add: allocName_suffixed)
  from calculateFileHash_frame [OF named(2)] resolveDate_frame [OF named(4)]
    os_MkdirAll_frame [OF named(5)]
  obtain pre where pre: "stdout w3 = stdout (world st) @ pre" "dests pre = []"
    by auto
  from transfer_stdout [OF named(7)]
  obtain post where post: "stdout w4 = stdout w3 @ post" "dests post = [] \<or> dests post = [?q]"
    unfolding name by (cases r; cases d) auto
  have out: "stdout (world st') = stdout (world st) @ (pre @ post)"
    using pre(1) post(1) named(8) by simp
  have ds: "dests (pre @ post) = [] \<or> dests (pre @ post) = [?q]"
    using pre(2) post(2) by (simp add: dests_append)
  have base: "last (split (CHR ''/'') ?q) = suffixed ?ts ?c ?ext"
    using named(1) by (rule last_split_newPath)
  have "timestampCounter st' = (timestampCounter st)(?ts \<mapsto> ?c)"
    using named(8) cs by simp
  with out ds base named(1) show ?thesis
    by blast
qed

lemma walkFn_dests:
  assumes "walkFn env t d st e = (r, st')"
  shows "\<exists>new. stdout (world st') = stdout (world st) @ new \<and>
           (dests new = [] \<and> timestampCounter st' = timestampCounter st \<or>
            (\<exists>fd ext q.
               (isImageFile ext \<or> isVideoFile ext) \<and>
               timestampCounter st' =
                 (timestampCounter st)(formatTimestamp fd \<mapsto>
                    (case timestampCounter st (formatTimestamp fd) of None \<Rightarrow> 0 | Some k \<Rightarrow> Suc k)) \<and>
               last (split (CHR ''/'') q) =
                 suffixed (formatTimestamp fd)
                    (case timestampCounter st (formatTimestamp fd) of None \<Rightarrow> 0 | Some k \<Rightarrow> Suc k) ext \<and>
               (dests new = [] \<or> dests new = [q])))"
proof (cases e)
  case (WalkError q err)
  with assms show ?thesis by (simp add: walkFn_def)
next
  case (DirEntry q)
  with assms show ?thesis by (simp add: walkFn_def)
next
  case (FileEntry q)
  with assms have "processFile env t d st q = (r, st')"
    by (simp add: walkFn_def)
  then show ?thesis
    by (rule processFile_dests)
qed

lemma namesKept_same:
  assumes "namesKept st ds" and "timestampCounter st' = timestampCounter st"
  shows "namesKept st' ds"
  using assms by (simp add: namesKept_def)

lemma namesKept_named:
  assumes kept: "namesKept st ds"
    and ext: "isImageFile ext \<or> isVideoFile ext"
    and cs: "timestampCounter st' =
               (timestampCounter st)(formatTimestamp fd \<mapsto>
                  (case timestampCounter st (formatTimestamp fd) of None \<Rightarrow> 0 | Some k \<Rightarrow> Suc k))"
    and base: "last (split (CHR ''/'') q) =
                 suffixed (formatTimestamp fd)
                    (case timestampCounter st (formatTimestamp fd) of None \<Rightarrow> 0 | Some k \<Rightarrow> Suc k) ext"
  shows "namesKept st' ds \<and> namesKept st' (ds @ [q])"
proof -
  let ?ts = "formatTimestamp fd"
  let ?c = "case timestampCounter st ?ts of None \<Rightarrow> 0 | Some k \<Rightarrow> Suc k"
  have old: "\<exists>fd0 k0 ext0 m0.
        last (split (CHR ''/'') q0) = suffixed (formatTimestamp fd0) k0 ext0 \<and>
        (isImageFile ext0 \<or> isVideoFile ext0) \<and>
        timestampCounter st' (formatTimestamp fd0) = Some m0 \<and> k0 \<le> m0" if "q0 \<in> set ds" for q0
  proof -
    from kept that obtain fd0 k0 ext0 m0 where o:
      "last (split (CHR ''/'') q0) = suffixed (formatTimestamp fd0) k0 ext0"
      "isImageFile ext0 \<or> isVideoFile ext0"
      "timestampCounter st (formatTimestamp fd0) = Some m0" "k0 \<le> m0"
      unfolding namesKept_def by blast
    show ?thesis
    proof (cases "formatTimestamp fd0 = ?ts")
      case True
      with o(3) have "timestampCounter st' (formatTimestamp fd0) = Some (Suc m0)"
        using cs by simp
      with o show ?thesis
        by (metis le_SucI)
    next
      case False
      with o(3) have "timestampCounter st' (formatTimestamp fd0) = Some m0"
        using cs by simp
      with o show ?thesis
        by blast
    qed
  qed
  have fresh: "q \<notin> set ds"
  proof
    assume "q \<in> set ds"
    with kept obtain fd0 k0 ext0 m0 where o:
      "last (split (CHR ''/'') q) = suffixed (formatTimestamp fd0) k0 ext0"
      "isImageFile ext0 \<or> isVideoFile ext0"
      "timestampCounter st (formatTimestamp fd0) = Some m0" "k0 \<le> m0"
      unfolding namesKept_def by blast
    from o(1) base have "suffixed (formatTimestamp fd0) k0 ext0 = suffixed ?ts ?c ext"
      by simp
    from suffixed_inj [OF this o(2) ext] have "formatTimestamp fd0 = ?ts" and "k0 = ?c"
      by simp_all
    with o(3,4) show False
      by simp
  qed
  have new: "\<exists>fd0 k0 ext0 m0.
        last (split (CHR ''/'') q) = suffixed (formatTimestamp fd0) k0 ext0 \<and>
        (isImageFile ext0 \<or> isVideoFile ext0) \<and>
        timestampCounter st' (formatTimestamp fd0) = Some m0 \<and> k0 \<le> m0"
    using base ext cs by (intro exI [of _ fd] exI [of _ ?c] exI [of _ ext]) simp
  have d: "distinct ds"
    using kept by (simp add: namesKept_def)
  show ?thesis
    using old new fresh d unfolding namesKept_def by auto
qed

lemma walkFn_namesKept:
  assumes "walkFn env t d st e = (r, st')" and "namesKept st ds"
  shows "\<exists>new. stdout (world st') = stdout (world st) @ new \<and> namesKept st' (ds @ dests new)"
proof -
  from walkFn_dests [OF assms(1)] obtain new where out: "stdout (world st') = stdout (world st) @ new"
    and alt: "dests new = [] \<and> timestampCounter st' = timestampCounter st \<or>
            (\<exists>fd ext q.
               (isImageFile ext \<or> isVideoFile ext) \<and>
               timestampCounter st' =
                 (timestampCounter st)(formatTimestamp fd \<mapsto>
                    (case timestampCounter st (formatTimestamp fd) of None \<Rightarrow> 0 | Some k \<Rightarrow> Suc k)) \<and>
               last (split (CHR ''/'') q) =
                 suffixed (formatTimestamp fd)
                    (case timestampCounter st (formatTimestamp fd) of None \<Rightarrow> 0 | Some k \<Rightarrow> Suc k) ext \<and>
               (dests new = [] \<or> dests new = [q]))"
    by blast
  from alt have "namesKept st' (ds @ dests new)"
  proof
    assume "dests new = [] \<and> timestampCounter st' = timestampCounter st"
    with namesKept_same [OF assms(2)] show ?thesis
      by simp
  next
    assume "\<exists>fd ext q.
               (isImageFile ext \<or> isVideoFile ext) \<and>
               timestampCounter st' =
                 (timestampCounter st)(formatTimestamp fd \<mapsto>
                    (case timestampCounter st (formatTimestamp fd) of None \<Rightarrow> 0 | Some k \<Rightarrow> Suc k)) \<and>
               last (split (CHR ''/'') q) =
                 suffixed (formatTimestamp fd)
                    (case timestampCounter st (formatTimestamp fd) of None \<Rightarrow> 0 | Some k \<Rightarrow> Suc k) ext \<and>
               (dests new = [] \<or> dests new = [q])"
    then obtain fd ext q where n:
      "isImageFile ext \<or> isVideoFile ext"
      "timestampCounter st' =
                 (timestampCounter st)(formatTimestamp fd \<mapsto>
                    (case timestampCounter st (formatTimestamp fd) of None \<Rightarrow> 0 | Some k \<Rightarrow> Suc k))"
      "last (split (CHR ''/'') q) =
                 suffixed (formatTimestamp fd)
                    (case timestampCounter st (formatTimestamp fd) of None \<Rightarrow> 0 | Some k \<Rightarrow> Suc k) ext"
      "dests new = [] \<or> dests new = [q]"
      by blast
    from namesKept_named [OF assms(2) n(1,2,3)] n(4) show ?thesis
      by auto
  qed
  with out show ?thesis
    by blast
qed

lemma walkAll_namesKept:
  "walkAll env t d st es = (r, st') \<Longrightarrow> namesKept st ds \<Longrightarrow>
   \<exists>new. stdout (world st') = stdout (world st) @ new \<and> namesKept st' (ds @ dests new)"
proof (induction es arbitrary: st ds)
  case Nil
  then show ?case by simp
next
  case (Cons e es)
  obtain r1 st1 where step: "walkFn env t d st e = (r1, st1)"
    by (cases "walkFn env t d st e")
  from walkFn_namesKept [OF step Cons.prems(2)] obtain n1 where
    o1: "stdout (world st1) = stdout (world st) @ n1" and k1: "namesKept st1 (ds @ dests n1)"
    by blast
  show ?case
  proof (cases r1)
    case (Some err)
    with Cons.prems(1) step have "st' = st1"
      by simp
    with o1 k1 show ?thesis
      by blast
  next
    case None
    with Cons.prems(1) step have "walkAll env t d st1 es = (r, st')"
      by simp
    from Cons.IH [OF this k1] obtain n2 where
      o2: "stdout (world st') = stdout (world st1) @ n2" and
      k2: "namesKept st' ((ds @ dests n1) @ dests n2)"
      by blast
    have "stdout (world st') = stdout (world st) @ (n1 @ n2)"
      using o1 o2 by simp
    moreover have "namesKept st' (ds @ dests (n1 @ n2))"
      using k2 by (simp add: dests_append)
    ultimately show ?thesis
      by blast
  qed
qed

text \<open>
  C4. The destination paths that one run of \<^verbatim>\<open>processFiles\<close> reports, for moves done or
  planned, are pairwise distinct, whatever the files, the faults and the clock. A file
  whose fingerprint was seen before gets no destination, so files with distinct
  fingerprints that are given destinations are given distinct ones.
\<close>

theorem C4_destinations_are_distinct:
  "distinct (dests (drop (length (stdout w0))
      (stdout (world (snd (processFiles env targetDir dryRun w0 walk))))))"
proof -
  let ?init = "\<lparr>fileHashes = Map.empty, timestampCounter = Map.empty, world = w0\<rparr>"
  obtain r st' where run: "walkAll env targetDir dryRun ?init walk = (r, st')"
    by (cases "walkAll env targetDir dryRun ?init walk")
  have "namesKept ?init []"
    by (simp add: namesKept_def)
  from walkAll_namesKept [OF run this] obtain new where
    "stdout (world st') = stdout w0 @ new" and "namesKept st' (dests new)"
    by auto
  then show ?thesis
    using run by (simp add: processFiles_def namesKept_def)
qed

section \<open>The names of a run\<close>









section \<open>What a dry run keeps\<close>

text \<open>
  The two other changes of the file system stand behind the test of the flag (lines 85
  and 149): a dry run deletes, moves and copies nothing, whatever the walk.
\<close>

lemma processFile_dry_files:
  assumes "processFile env t True st p = (r, st')"
  shows "files (world st') = files (world st)"
  using assms
proof (cases rule: processFile_cases)
  case other
  then show ?thesis by simp
next
  case (hashError err w1)
  with calculateFileHash_frame [OF hashError(2)] show ?thesis by simp
next
  case (duplicate h w1 p0)
  with calculateFileHash_frame [OF duplicate(2)] dropDuplicate_effect [of env True w1 p p0]
  show ?thesis by simp
next
  case (mkdirError h w1 fd w2 err w3)
  with calculateFileHash_frame [OF mkdirError(2)] resolveDate_frame [OF mkdirError(4)]
    os_MkdirAll_frame [OF mkdirError(5)]
  show ?thesis by simp
next
  case (named h w1 fd w2 w3 name cs w4)
  from named(7) have "files w4 = files w3"
    by (auto simp: transfer_def println_def)
  with named calculateFileHash_frame [OF named(2)] resolveDate_frame [OF named(4)]
    os_MkdirAll_frame [OF named(5)]
  show ?thesis by simp
qed

lemma walkAll_dry_files:
  "walkAll env t True st es = (r, st') \<Longrightarrow> files (world st') = files (world st)"
proof (induction es arbitrary: st)
  case Nil
  then show ?case by simp
next
  case (Cons e es)
  obtain r1 st1 where step: "walkFn env t True st e = (r1, st1)"
    by (cases "walkFn env t True st e")
  have f1: "files (world st1) = files (world st)"
    using step by (cases e) (auto simp: walkFn_def dest: processFile_dry_files)
  show ?case
  proof (cases r1)
    case None
    with Cons.prems step have "walkAll env t True st1 es = (r, st')"
      by simp
    from Cons.IH [OF this] f1 show ?thesis by simp
  next
    case (Some err)
    with Cons.prems step f1 show ?thesis by simp
  qed
qed

lemma dry_run_keeps_files:
  "files (world (snd (processFiles env targetDir True w walk))) = files w"
proof -
  obtain r st' where run: "processFiles env targetDir True w walk = (r, st')"
    by (cases "processFiles env targetDir True w walk")
  then show ?thesis
    using walkAll_dry_files [of env targetDir _ walk r st'] by (simp add: processFiles_def)
qed

end
